theory Spec2Isabelle
  imports Complex_Main "HOL-Library.Multiset"
begin

section \<open>Errors raised by the automation engine\<close>

text \<open>
  Every exception class the modelled code raises is one constructor; a function that can
  raise returns \<open>error + 'a\<close> with \<open>Inl\<close> for the exception.
  \<open>DispatchException\<close> is the generic business-logic failure,
  \<open>UnexpectedException\<close> stands for any other \<open>Exception\<close> (a
  \<open>RecursionError\<close> included), \<open>UserNotInWorkspace\<close> for a refused permission check.
  \<open>KeyboardInterruptOrSystemExit\<close> stands for an exception that is a \<open>BaseException\<close>
  but not an \<open>Exception\<close>, which \<open>except Exception\<close> does not catch;
  \<open>UnboundLocalError\<close> is what reading a local variable that was never assigned raises.
\<close>

datatype error =
    AutomationWorkflowRateLimited
  | AutomationWorkflowTooManyErrors
  | AutomationTriggerModificationDisallowed
  | AutomationNodeBeforeInvalid
  | AutomationNodeNotMovable
  | AutomationNodeDoesNotExist
  | AutomationWorkflowDoesNotExist
  | AutomationNodeMisconfiguredService
  | DispatchException
  | UnexpectedException
  | UserNotInWorkspace
  | KeyboardInterruptOrSystemExit
  | UnboundLocalError

section \<open>Settings and time\<close>

text \<open>
  The three Django settings the run controller reads. They are counts and a duration, so
  they are natural numbers. A \<open>datetime\<close> is an integer number of microseconds, and
  \<open>timedelta(seconds=s)\<close> is \<open>s * 1000000\<close> of them.
\<close>

record settings =
  AUTOMATION_WORKFLOW_RATE_LIMIT_CACHE_EXPIRY_SECONDS :: nat
  AUTOMATION_WORKFLOW_RATE_LIMIT_MAX_RUNS :: nat
  AUTOMATION_WORKFLOW_MAX_CONSECUTIVE_ERRORS :: nat

type_synonym datetime = int

definition timedelta_seconds :: "nat \<Rightarrow> int" where
  "timedelta_seconds s = int s * 1000000"

section \<open>Rate limiting (workflows/handler.py)\<close>

text \<open>
  The cached value is a Python list whose items are expected to be datetimes; the code
  filters with \<open>isinstance(timestamp, datetime)\<close>, so an item is either a datetime or
  something else.
\<close>

datatype cache_item = Datetime datetime | NotDatetime

fun in_window :: "datetime \<Rightarrow> cache_item \<Rightarrow> bool" where
  "in_window start_window (Datetime t) = (t > start_window)"
| "in_window start_window NotDatetime = False"

definition check_is_rate_limited_value ::
  "settings \<Rightarrow> datetime \<Rightarrow> cache_item list \<Rightarrow> error + cache_item list" where
  "check_is_rate_limited_value cfg now data =
     (let expiry_seconds = AUTOMATION_WORKFLOW_RATE_LIMIT_CACHE_EXPIRY_SECONDS cfg;
          start_window = now - timedelta_seconds expiry_seconds;
          runs_in_window = filter (in_window start_window) data
      in if length runs_in_window \<ge> AUTOMATION_WORKFLOW_RATE_LIMIT_MAX_RUNS cfg
         then Inl AutomationWorkflowRateLimited
         else Inr (runs_in_window @ [Datetime now]))"

text \<open>
  Modelled from the spec: the global cache (\<open>baserow.core.cache.global_cache\<close>) is not
  among the sources. The spec says the window is "stored keyed by workflow id", and
  \<open>update\<close> is a read-modify-write of one key starting from the default value; when the
  callback raises nothing is written. The key \<open>automation_workflow_{id}\<close> is the id.
\<close>

type_synonym rate_cache = "nat \<Rightarrow> cache_item list option"

definition check_is_rate_limited ::
  "settings \<Rightarrow> datetime \<Rightarrow> nat \<Rightarrow> rate_cache \<Rightarrow> error + rate_cache" where
  "check_is_rate_limited cfg now workflow_id cache =
     (let data = (case cache workflow_id of None \<Rightarrow> [] | Some d \<Rightarrow> d)
      in case check_is_rate_limited_value cfg now data of
           Inl e \<Rightarrow> Inl e
         | Inr d \<Rightarrow> Inr (cache(workflow_id \<mapsto> d)))"

text \<open>
  What the claim calls "recorded start timestamps within the last W seconds": the
  datetimes of the stored list that are later than \<open>now - W\<close>.
\<close>

definition recorded_within :: "nat \<Rightarrow> datetime \<Rightarrow> cache_item list \<Rightarrow> datetime list" where
  "recorded_within w now data =
     [t. Datetime t \<leftarrow> data, now - int w * 1000000 < t]"

section \<open>Graph store: nodes (nodes/handler.py, nodes/registries.py)\<close>

text \<open>
  A node type carries the class attributes the engine reads: \<open>is_workflow_trigger\<close> and
  \<open>is_workflow_action\<close> (registries.py) and \<open>is_fixed\<close> (read by the service's
  \<open>move_node\<close>).
\<close>

record node_type =
  is_workflow_trigger :: bool
  is_workflow_action :: bool
  is_fixed :: bool

text \<open>
  A row of the node table with the fields the graph engine reads and writes. The primary
  key \<open>id\<close> is \<open>node_id\<close>; \<open>previous_node_id\<close> is the nullable back-pointer,
  \<open>previous_node_output\<close> the branch key (the empty string is the default branch) and
  \<open>order\<close> the decimal display order. The store is the list of the rows that are not
  trashed, which is what the default manager \<open>AutomationNode.objects\<close> returns.
\<close>

record node =
  node_id :: nat
  workflow_id :: nat
  ntype :: node_type
  parent_node_id :: "nat option"
  previous_node_id :: "nat option"
  previous_node_output :: string
  order :: rat

type_synonym store = "node list"

definition get_nodes :: "nat \<Rightarrow> node list \<Rightarrow> node list" where
  \<comment> \<open>\<open>base_queryset.filter(workflow=workflow)\<close>; the request-local cache is read as a miss\<close>
  "get_nodes workflow base_queryset = filter (\<lambda>m. workflow_id m = workflow) base_queryset"

definition get_next_nodes :: "store \<Rightarrow> nat \<Rightarrow> node option \<Rightarrow> string option \<Rightarrow> node list" where
  "get_next_nodes s workflow nd output_uid =
     (let queryset = filter (\<lambda>m. previous_node_id m = map_option node_id nd) s;
          queryset = (case output_uid of
                        None \<Rightarrow> queryset
                      | Some u \<Rightarrow> filter (\<lambda>m. previous_node_output m = u) queryset)
      in get_nodes workflow queryset)"

text \<open>
  Modelled from the spec: the model method \<open>AutomationNode.get_next_nodes\<close> (nodes/models.py)
  is not among the sources. The spec's \<open>successorsOf(node, outputKey)\<close> "returns nodes
  whose previous_node_id matches and whose previous_node_output matches outputKey when
  given, else all branches"; it is the handler's \<open>get_next_nodes\<close> for the node's own
  workflow.
\<close>

definition node_get_next_nodes :: "store \<Rightarrow> node \<Rightarrow> string option \<Rightarrow> node list" where
  "node_get_next_nodes s nd output_uid = get_next_nodes s (workflow_id nd) (Some nd) output_uid"

text \<open>
  \<open>bulk_update(objs, fields)\<close> writes the named fields of every object to the row with the
  same primary key. \<open>update_previous_node\<close> always writes \<open>previous_node\<close> and writes
  \<open>previous_node_output\<close> only when it was given one.
\<close>

definition bulk_update_row :: "node list \<Rightarrow> bool \<Rightarrow> node \<Rightarrow> node" where
  "bulk_update_row objs with_output row =
     (case find (\<lambda>obj. node_id obj = node_id row) objs of
        None \<Rightarrow> row
      | Some obj \<Rightarrow>
          if with_output
          then row\<lparr>previous_node_id := previous_node_id obj,
                   previous_node_output := previous_node_output obj\<rparr>
          else row\<lparr>previous_node_id := previous_node_id obj\<rparr>)"

definition bulk_update :: "node list \<Rightarrow> bool \<Rightarrow> store \<Rightarrow> store" where
  "bulk_update objs with_output s = map (bulk_update_row objs with_output) s"

text \<open>
  \<open>new_previous_node\<close> is the primary key of the new previous node, \<open>None\<close> when the code
  passes no node: assigning the foreign key \<open>previous_node\<close> stores that key.
\<close>

definition update_previous_node ::
  "nat option \<Rightarrow> node list \<Rightarrow> string option \<Rightarrow> store \<Rightarrow> store \<times> node list" where
  "update_previous_node new_previous_node nds output s =
     (let updates = map (\<lambda>m. case output of
                                None \<Rightarrow> m\<lparr>previous_node_id := new_previous_node\<rparr>
                              | Some out \<Rightarrow> m\<lparr>previous_node_id := new_previous_node,
                                              previous_node_output := out\<rparr>) nds
      in (bulk_update updates (output \<noteq> None) s, updates))"

text \<open>\<open>node.save(update_fields=[...])\<close> for the two pointer fields and for the order.\<close>

definition save_previous_node_output :: "node \<Rightarrow> store \<Rightarrow> store" where
  "save_previous_node_output obj s =
     map (\<lambda>row. if node_id row = node_id obj
                 then row\<lparr>previous_node_output := previous_node_output obj\<rparr> else row) s"

definition save_position :: "node \<Rightarrow> store \<Rightarrow> store" where
  "save_position obj s =
     map (\<lambda>row. if node_id row = node_id obj
                 then row\<lparr>previous_node_id := previous_node_id obj,
                          previous_node_output := previous_node_output obj,
                          order := order obj\<rparr> else row) s"

text \<open>
  Modelled from the spec: \<open>AutomationNode.get_last_order\<close> (nodes/models.py) is not among
  the sources. The spec says a node without \<open>before\<close> is "appended last" and a duplicate is
  "appended at the end of the workflow's order": the value is one more than the highest
  order of the workflow's nodes.
\<close>

definition get_last_order :: "store \<Rightarrow> nat \<Rightarrow> rat" where
  "get_last_order s workflow = fold max (map order (get_nodes workflow s)) 0 + 1"

text \<open>
  The two other helpers of the models that are not among the sources,
  \<open>AutomationWorkflow.get_last_node_id\<close> and \<open>AutomationNode.get_unique_order_before_node\<close>,
  are parameters: no claim depends on the values they return.
\<close>

record model_helpers =
  get_last_node_id :: "store \<Rightarrow> nat \<Rightarrow> nat option \<Rightarrow> nat option"
  get_unique_order_before_node :: "store \<Rightarrow> node \<Rightarrow> nat option \<Rightarrow> rat"

subsection \<open>create_node\<close>

text \<open>
  The keyword arguments that survive \<open>extract_allowed\<close>. \<open>kw_previous_node_id\<close> is
  \<open>None\<close> when the key is absent and \<open>Some v\<close> when it is present with value \<open>v\<close> (which
  may itself be null): the code tests the presence of the key.
\<close>

record create_kwargs =
  kw_previous_node_id :: "nat option option"
  kw_previous_node_output :: "string option"
  kw_parent_node_id :: "nat option"
  kw_order :: "rat option"

definition create_node ::
  "model_helpers \<Rightarrow> store \<Rightarrow> nat \<Rightarrow> node_type \<Rightarrow> nat \<Rightarrow> node option \<Rightarrow> create_kwargs
     \<Rightarrow> store \<times> node" where
  "create_node env s new_id nt workflow before_node kw =
     (let parent = kw_parent_node_id kw;
          prepared_output =
            (case before_node of
               Some b \<Rightarrow> if previous_node_output b \<noteq> '''' then Some (previous_node_output b)
                         else kw_previous_node_output kw
             | None \<Rightarrow> kw_previous_node_output kw);
          node_previous_ids_to_update =
            (case before_node of
               None \<Rightarrow> []
             | Some b \<Rightarrow>
                 filter (\<lambda>m. previous_node_id m
                                = Some (case previous_node_id b of
                                          None \<Rightarrow> node_id b | Some p \<Rightarrow> p)
                             \<and> previous_node_output m = previous_node_output b)
                   (get_nodes workflow s));
          prepared_previous_node_id =
            (case kw_previous_node_id kw of
               Some p \<Rightarrow> p
             | None \<Rightarrow> (case before_node of
                          Some b \<Rightarrow> previous_node_id b
                        | None \<Rightarrow> get_last_node_id env s workflow parent));
          new_order =
            (case before_node of
               Some b \<Rightarrow> get_unique_order_before_node env s b parent
             | None \<Rightarrow> (case kw_order kw of
                          Some ord \<Rightarrow> if ord \<noteq> 0 then ord else get_last_order s workflow
                        | None \<Rightarrow> get_last_order s workflow));
          nd = \<lparr>node_id = new_id, workflow_id = workflow, ntype = nt,
                parent_node_id = parent,
                previous_node_id = prepared_previous_node_id,
                previous_node_output =
                  (case prepared_output of None \<Rightarrow> '''' | Some out \<Rightarrow> out),
                order = new_order\<rparr>;
          s1 = s @ [nd];
          s2 = (if node_previous_ids_to_update \<noteq> []
                then fst (update_previous_node (Some (node_id nd))
                            node_previous_ids_to_update None s1)
                else s1);
          s3 = (case before_node of
                  Some b \<Rightarrow> if previous_node_output b \<noteq> ''''
                            then save_previous_node_output (b\<lparr>previous_node_output := ''''\<rparr>) s2
                            else s2
                | None \<Rightarrow> s2)
      in (s3, nd))"

subsection \<open>duplicate_node\<close>

record NextAutomationNodeValues =
  nv_id :: nat
  nv_previous_node_id :: "nat option"
  nv_previous_node_output :: string

definition next_values :: "node \<Rightarrow> NextAutomationNodeValues" where
  "next_values nn = \<lparr>nv_id = node_id nn, nv_previous_node_id = previous_node_id nn,
                     nv_previous_node_output = previous_node_output nn\<rparr>"




subsection \<open>move_node\<close>

record AutomationNodeMove =
  moved_node :: node
  next_node_updates :: "node list"
  origin_previous_node_id :: "nat option"
  origin_previous_node_output :: string
  origin_old_next_nodes_values :: "NextAutomationNodeValues list"
  origin_new_next_nodes_values :: "NextAutomationNodeValues list"
  destination_previous_node_id :: "nat option"
  destination_previous_node_output :: string
  destination_old_next_nodes_values :: "NextAutomationNodeValues list"
  destination_new_next_nodes_values :: "NextAutomationNodeValues list"

definition truthy :: "string option \<Rightarrow> bool" where
  \<comment> \<open>Python truth of an optional string: neither \<open>None\<close> nor empty\<close>
  "truthy x = (case x of None \<Rightarrow> False | Some v \<Rightarrow> v \<noteq> '''')"

definition or_empty :: "string option \<Rightarrow> string" where
  \<comment> \<open>\<open>previous_node_output or ""\<close>\<close>
  "or_empty x = (case x of None \<Rightarrow> '''' | Some v \<Rightarrow> v)"

definition move_node ::
  "model_helpers \<Rightarrow> store \<Rightarrow> node \<Rightarrow> node \<Rightarrow> string option \<Rightarrow> rat option
     \<Rightarrow> store \<times> AutomationNodeMove" where
  "move_node env s nd after_node out new_order =
     (let origin_next_nodes = node_get_next_nodes s nd None;
          origin_old = map next_values origin_next_nodes;
          (s1, updated_origin_next_nodes) =
             update_previous_node (previous_node_id nd) origin_next_nodes
               (Some (previous_node_output nd)) s;
          origin_new = map next_values updated_origin_next_nodes;
          destination_next_nodes = node_get_next_nodes s1 after_node out;
          destination_old = map next_values destination_next_nodes;
          origin_id = previous_node_id nd;
          origin_output = previous_node_output nd;
          nd' = nd\<lparr>previous_node_id := Some (node_id after_node),
                    previous_node_output := or_empty out,
                    order := (case new_order of
                                Some ord \<Rightarrow> if ord \<noteq> 0 then ord
                                  else get_unique_order_before_node env s1 after_node
                                         (parent_node_id after_node)
                              | None \<Rightarrow> get_unique_order_before_node env s1 after_node
                                         (parent_node_id after_node))\<rparr>;
          s2 = save_position nd' s1;
          (s3, updated_destination_next_nodes) =
             update_previous_node (Some (node_id nd')) destination_next_nodes
               (if truthy out then Some '''' else None) s2;
          destination_new = map next_values updated_destination_next_nodes
      in (s3, \<lparr>moved_node = nd',
                next_node_updates = updated_origin_next_nodes @ updated_destination_next_nodes,
                origin_previous_node_id = origin_id,
                origin_previous_node_output = origin_output,
                origin_old_next_nodes_values = origin_old,
                origin_new_next_nodes_values = origin_new,
                destination_previous_node_id = previous_node_id nd',
                destination_previous_node_output = previous_node_output nd',
                destination_old_next_nodes_values = destination_old,
                destination_new_next_nodes_values = destination_new\<rparr>))"

subsection \<open>Row-wise description of the relinking\<close>

text \<open>
  These three definitions are not code of the repository: they describe, row by row, what
  \<open>update_previous_node\<close> and \<open>move_node\<close> write, and are proved equal to the
  functions above. \<open>follows nd out m\<close> says that \<open>m\<close> is among \<open>nd.get_next_nodes(out)\<close>.
\<close>

definition relink :: "nat option \<Rightarrow> string option \<Rightarrow> node \<Rightarrow> node" where
  "relink p out r = r\<lparr>previous_node_id := p,
       previous_node_output := (case out of None \<Rightarrow> previous_node_output r | Some v \<Rightarrow> v)\<rparr>"

definition follows :: "node \<Rightarrow> string option \<Rightarrow> node \<Rightarrow> bool" where
  "follows nd out m =
     (previous_node_id m = Some (node_id nd)
      \<and> (case out of None \<Rightarrow> True | Some u \<Rightarrow> previous_node_output m = u)
      \<and> workflow_id m = workflow_id nd)"

definition move_order :: "model_helpers \<Rightarrow> store \<Rightarrow> node \<Rightarrow> node \<Rightarrow> rat option \<Rightarrow> rat" where
  "move_order env s nd after_node new_order =
     (let s1 = fst (update_previous_node (previous_node_id nd) (node_get_next_nodes s nd None)
                      (Some (previous_node_output nd)) s);
          computed = get_unique_order_before_node env s1 after_node (parent_node_id after_node)
      in case new_order of
           Some ord \<Rightarrow> if ord \<noteq> 0 then ord else computed
         | None \<Rightarrow> computed)"

definition move_row :: "node \<Rightarrow> node \<Rightarrow> string option \<Rightarrow> rat \<Rightarrow> node \<Rightarrow> node" where
  "move_row nd after_node out ord r =
     (let r1 = (if follows nd None r
                then relink (previous_node_id nd) (Some (previous_node_output nd)) r else r);
          at_destination = follows after_node out r1;
          r2 = (if node_id r1 = node_id nd
                then r1\<lparr>previous_node_id := Some (node_id after_node),
                        previous_node_output := or_empty out, order := ord\<rparr>
                else r1)
      in if at_destination
         then relink (Some (node_id nd)) (if truthy out then Some '''' else None) r2
         else r2)"

definition link :: "node \<Rightarrow> nat \<times> nat option \<times> string" where
  \<comment> \<open>the successor relation of one row: its id and its (previous_node_id, previous_node_output)\<close>
  "link m = (node_id m, previous_node_id m, previous_node_output m)"

section \<open>Node service (nodes/service.py)\<close>

text \<open>
  Modelled from the spec: the permission handler (\<open>CoreHandler().check_permissions\<close>) is
  an external collaborator, "check(user, operationKind, scopeContext) -> allow | deny". A
  user is the set of operation kinds the check allows; a refusal raises.
\<close>

datatype operation =
    ReadAutomationNode | CreateAutomationNode | UpdateAutomationNode
  | DeleteAutomationNode | DuplicateAutomationNode

type_synonym user = "operation \<Rightarrow> bool"

definition check_permissions :: "user \<Rightarrow> operation \<Rightarrow> error + unit" where
  "check_permissions usr op = (if usr op then Inr () else Inl UserNotInWorkspace)"

definition handler_get_node :: "store \<Rightarrow> nat \<Rightarrow> error + node" where
  \<comment> \<open>\<open>AutomationNodeHandler.get_node\<close>\<close>
  "handler_get_node s i =
     (case find (\<lambda>r. node_id r = i) s of
        None \<Rightarrow> Inl AutomationNodeDoesNotExist
      | Some r \<Rightarrow> Inr r)"

definition get_node :: "user \<Rightarrow> store \<Rightarrow> nat \<Rightarrow> error + node" where
  \<comment> \<open>\<open>AutomationNodeService.get_node\<close>\<close>
  "get_node usr s i =
     (case handler_get_node s i of
        Inl e \<Rightarrow> Inl e
      | Inr nd \<Rightarrow> (case check_permissions usr ReadAutomationNode of
                     Inl e \<Rightarrow> Inl e
                   | Inr _ \<Rightarrow> Inr nd))"

definition service_move_node ::
  "model_helpers \<Rightarrow> user \<Rightarrow> store \<Rightarrow> nat \<Rightarrow> nat \<Rightarrow> string option \<Rightarrow> rat option
     \<Rightarrow> error + store \<times> AutomationNodeMove" where
  "service_move_node env usr s i new_previous_node_id new_previous_output new_order =
     (case get_node usr s i of
        Inl e \<Rightarrow> Inl e
      | Inr nd \<Rightarrow>
          (case check_permissions usr UpdateAutomationNode of
             Inl e \<Rightarrow> Inl e
           | Inr _ \<Rightarrow>
               if is_fixed (ntype nd) then Inl AutomationNodeNotMovable
               else (case get_node usr s new_previous_node_id of
                       Inl e \<Rightarrow> Inl e
                     | Inr after_node \<Rightarrow>
                         Inr (move_node env s nd after_node new_previous_output new_order))))"

definition move_there_and_back ::
  "model_helpers \<Rightarrow> user \<Rightarrow> store \<Rightarrow> nat \<Rightarrow> nat \<Rightarrow> string option \<Rightarrow> rat option
     \<Rightarrow> nat \<Rightarrow> string option \<Rightarrow> rat option \<Rightarrow> error + store" where
  \<comment> \<open>two calls of the service's \<open>move_node\<close> for the same node, one after the other\<close>
  "move_there_and_back env usr s i there out_there order_there back out_back order_back =
     (case service_move_node env usr s i there out_there order_there of
        Inl e \<Rightarrow> Inl e
      | Inr (s1, mv1) \<Rightarrow>
          (case service_move_node env usr s1 i back out_back order_back of
             Inl e \<Rightarrow> Inl e
           | Inr (s2, mv2) \<Rightarrow> Inr s2))"

subsection \<open>Example values\<close>

text \<open>
  Concrete node types, helpers and a user that may do everything, for the examples that
  instantiate the theorems. \<open>example_node i p out\<close> is node \<open>i\<close> of workflow 1 behind
  \<open>p\<close> on branch \<open>out\<close>; it is a trigger exactly when it has no previous node.
\<close>

definition action_type :: node_type where
  "action_type = \<lparr>is_workflow_trigger = False, is_workflow_action = True, is_fixed = False\<rparr>"

definition trigger_type :: node_type where
  "trigger_type = \<lparr>is_workflow_trigger = True, is_workflow_action = False, is_fixed = True\<rparr>"

definition example_helpers :: model_helpers where
  "example_helpers = \<lparr>get_last_node_id = (\<lambda>s w p. None),
                       get_unique_order_before_node = (\<lambda>s n p. 0)\<rparr>"

definition anyone :: user where
  "anyone = (\<lambda>op. True)"

definition example_node :: "nat \<Rightarrow> nat option \<Rightarrow> string \<Rightarrow> node" where
  "example_node i p out =
     \<lparr>node_id = i, workflow_id = 1,
      ntype = (if p = None then trigger_type else action_type),
      parent_node_id = None, previous_node_id = p, previous_node_output = out,
      order = of_nat i\<rparr>"


subsection \<open>create_node and delete_node of the service\<close>

text \<open>
  \<open>AutomationNodeService.create_node\<close>: the trigger check comes first, then the permission
  check, then the validation of \<open>before\<close>, where \<open>not before.previous_node_id\<close> holds for no
  previous node and for the id 0. \<open>prepare_values\<close> creates the service of the node and
  hands the node fields through; the hook \<open>after_create\<close> of the base node type is empty.
  An exception is \<open>Inl\<close>: no store is returned and the rows are as they were.
\<close>

definition service_create_node ::
  "model_helpers \<Rightarrow> user \<Rightarrow> store \<Rightarrow> nat \<Rightarrow> node_type \<Rightarrow> nat \<Rightarrow> node option \<Rightarrow> create_kwargs
     \<Rightarrow> error + store \<times> node" where
  "service_create_node env usr s new_id nt workflow before_node kw =
     (if is_workflow_trigger nt then Inl AutomationTriggerModificationDisallowed
      else
        case check_permissions usr CreateAutomationNode of
          Inl e \<Rightarrow> Inl e
        | Inr _ \<Rightarrow>
            (case before_node of
               Some b \<Rightarrow>
                 if workflow \<noteq> workflow_id b then Inl AutomationNodeBeforeInvalid
                 else if previous_node_id b = None \<or> previous_node_id b = Some 0
                 then Inl AutomationNodeBeforeInvalid
                 else Inr (create_node env s new_id nt workflow before_node kw)
             | None \<Rightarrow> Inr (create_node env s new_id nt workflow before_node kw)))"

text \<open>
  Modelled from the spec: the hook \<open>before_delete\<close> of the trigger node types
  (nodes/node_types.py) is not among the sources; the one of the base node type, in
  nodes/registries.py, is empty. The spec says "Delete (node): fails
  TriggerDeletionDisallowed for triggers"; the code has one exception for a trigger that
  is created, deleted or duplicated, \<open>AutomationTriggerModificationDisallowed\<close>, which the
  docstring of \<open>delete_node\<close> names.
\<close>

definition before_delete :: "node \<Rightarrow> error + unit" where
  "before_delete nd =
     (if is_workflow_trigger (ntype nd) then Inl AutomationTriggerModificationDisallowed
      else Inr ())"

text \<open>
  Modelled from the spec: \<open>TrashHandler.trash\<close> (core/trash) and the trashable item type of
  the nodes (nodes/trash_types.py) are not among the sources. The spec says "Otherwise
  soft-deletes via the external trash collaborator; successors are not automatically
  relinked": after the hook, the row leaves the live rows, which are what the store
  holds, and no other row changes.
\<close>

definition trash :: "store \<Rightarrow> node \<Rightarrow> error + store" where
  "trash s nd =
     (case before_delete nd of
        Inl e \<Rightarrow> Inl e
      | Inr _ \<Rightarrow> Inr (filter (\<lambda>r. node_id r \<noteq> node_id nd) s))"

definition service_delete_node :: "user \<Rightarrow> store \<Rightarrow> nat \<Rightarrow> error + store \<times> node" where
  \<comment> \<open>\<open>AutomationNodeService.delete_node\<close>\<close>
  "service_delete_node usr s i =
     (case handler_get_node s i of
        Inl e \<Rightarrow> Inl e
      | Inr nd \<Rightarrow>
          (case check_permissions usr DeleteAutomationNode of
             Inl e \<Rightarrow> Inl e
           | Inr _ \<Rightarrow>
               (case trash s nd of
                  Inl e \<Rightarrow> Inl e
                | Inr s' \<Rightarrow> Inr (s', nd))))"

section \<open>Dispatch engine (nodes/handler.py, dispatch_node)\<close>

text \<open>
  The business logic behind a node is opaque and may fail: it returns a result tagged
  with an \<open>output_uid\<close>, or raises. The kinds of failure the engine tells apart are the
  "improperly configured" one, any other \<open>DispatchException\<close>, any other \<open>Exception\<close>, and
  an exception that is not an \<open>Exception\<close> (\<open>KeyboardInterrupt\<close>, \<open>SystemExit\<close>: what
  reaches the call when the worker is interrupted or told to exit). A service sees the
  node and the results recorded so far in the run.
\<close>

datatype service_error =
    ServiceImproperlyConfiguredDispatchException
  | OtherDispatchException
  | OtherException
  | OtherBaseException

record dispatch_result =
  output_uid :: string
  result_data :: string

type_synonym service = "node \<Rightarrow> (nat \<times> dispatch_result) list \<Rightarrow> service_error + dispatch_result"

text \<open>
  The dispatch context is mutated in place during a run, so what it holds survives an
  exception. \<open>dispatched\<close> lists the nodes whose business logic was invoked, in order;
  \<open>refreshed\<close> lists the nodes whose stored sample data was re-read and announced with
  \<open>automation_node_updated\<close>.
\<close>

record dispatch_context =
  simulate_until_node :: "node option"
  results :: "(nat \<times> dispatch_result) list"
  dispatched :: "nat list"
  refreshed :: "nat list"

text \<open>
  Modelled from the spec: \<open>AutomationDispatchContext.after_dispatch\<close> is not among the
  sources. The spec says "the context records this result against the node".
\<close>

definition after_dispatch :: "dispatch_context \<Rightarrow> node \<Rightarrow> dispatch_result \<Rightarrow> dispatch_context" where
  "after_dispatch ctx nd r = ctx\<lparr>results := results ctx @ [(node_id nd, r)]\<rparr>"

definition translate :: "service_error \<Rightarrow> error" where
  \<comment> \<open>the \<open>except\<close> clause of \<open>dispatch_node\<close>: only the misconfigured failure is renamed\<close>
  "translate e = (case e of
       ServiceImproperlyConfiguredDispatchException \<Rightarrow> AutomationNodeMisconfiguredService
     | OtherDispatchException \<Rightarrow> DispatchException
     | OtherException \<Rightarrow> UnexpectedException
     | OtherBaseException \<Rightarrow> KeyboardInterruptOrSystemExit)"

text \<open>
  \<open>dispatch_node\<close> recurses along the graph and a malformed graph with a cycle never
  stops by itself, so the recursion carries fuel: \<open>None\<close> is "the fuel ran out". Otherwise
  the result is the context as the run left it and the exception raised, if any.
\<close>

fun dispatch_node ::
    "nat \<Rightarrow> service \<Rightarrow> store \<Rightarrow> node \<Rightarrow> dispatch_context
       \<Rightarrow> (dispatch_context \<times> error option) option"
  and dispatch_next_nodes ::
    "nat \<Rightarrow> service \<Rightarrow> store \<Rightarrow> node list \<Rightarrow> dispatch_context
       \<Rightarrow> (dispatch_context \<times> error option) option"
where
  "dispatch_node 0 svc s nd ctx = None"
| "dispatch_node (Suc fuel) svc s nd ctx =
     (let ctx0 = ctx\<lparr>dispatched := dispatched ctx @ [node_id nd]\<rparr>
      in case svc nd (results ctx0) of
           Inl e \<Rightarrow> Some (ctx0, Some (translate e))
         | Inr dispatch_result \<Rightarrow>
             (let ctx1 = after_dispatch ctx0 nd dispatch_result
              in if (case simulate_until_node ctx1 of
                       None \<Rightarrow> False
                     | Some until_node \<Rightarrow> node_id until_node = node_id nd)
                 then Some (ctx1\<lparr>refreshed := refreshed ctx1 @ [node_id nd]\<rparr>, None)
                 else dispatch_next_nodes fuel svc s
                        (node_get_next_nodes s nd (Some (output_uid dispatch_result))) ctx1))"
| "dispatch_next_nodes fuel svc s [] ctx = Some (ctx, None)"
| "dispatch_next_nodes fuel svc s (next_node # rest) ctx =
     (case dispatch_node fuel svc s next_node ctx of
        None \<Rightarrow> None
      | Some (ctx1, Some e) \<Rightarrow> Some (ctx1, Some e)
      | Some (ctx1, None) \<Rightarrow> dispatch_next_nodes fuel svc s rest ctx1)"

section \<open>Run controller (workflows/handler.py)\<close>

datatype workflow_state = Draft | Live | Disabled

datatype history_status = STARTED | SUCCESS | ERROR | DISABLED

text \<open>
  A row of the workflow table. \<open>published_from_id\<close> is
  \<open>workflow.automation.published_from_id\<close>: for a published workflow, the id of the
  workflow it was published from. \<open>simulate_until_node_id\<close> is the foreign key behind
  \<open>simulate_until_node\<close>.
\<close>

record workflow =
  wf_id :: nat
  published_from_id :: "nat option"
  wf_state :: workflow_state
  allow_test_run_until :: "datetime option"
  simulate_until_node_id :: "nat option"

text \<open>
  A row of the run history. The message is the text of the caught exception; the model
  keeps the exception itself, \<open>None\<close> for the empty message.
\<close>

record history =
  h_workflow_id :: nat
  started_on :: datetime
  completed_on :: "datetime option"
  is_test_run :: bool
  status :: history_status
  message :: "error option"

text \<open>
  The database and the cache the run controller reads and writes: the workflow table, the
  history table in insertion order, and the rate-limit cache. \<open>order_by_started_on_desc\<close>
  is how the database answers \<open>order_by("-started_on")\<close>: it takes the selected rows and
  returns them in the order of the answer. SQL fixes that order only up to rows that
  started at the same time, so the model leaves the function open; \<open>latest_first\<close>, below,
  is what every database guarantees of it.
\<close>

record engine =
  workflows :: "workflow list"
  histories :: "history list"
  rate_limit_cache :: rate_cache
  order_by_started_on_desc :: "history list \<Rightarrow> history list"

text \<open>
  \<open>workflow.automation.published_from\<close> follows the foreign key; \<open>None\<close> is "the row does
  not exist", where Django raises. An id is truthy when it is not 0.
\<close>

definition get_original_workflow :: "engine \<Rightarrow> workflow \<Rightarrow> workflow option" where
  "get_original_workflow db w =
     (case published_from_id w of
        Some i \<Rightarrow> if i \<noteq> 0 then find (\<lambda>r. wf_id r = i) (workflows db) else Some w
      | None \<Rightarrow> Some w)"

definition reset_workflow_temporary_states :: "engine \<Rightarrow> workflow \<Rightarrow> engine" where
  \<comment> \<open>\<open>save(update_fields=...)\<close> writes only the fields that were set on the object\<close>
  "reset_workflow_temporary_states db w =
     db\<lparr>workflows :=
          map (\<lambda>r. if wf_id r = wf_id w
                    then r\<lparr>allow_test_run_until :=
                              (if allow_test_run_until w \<noteq> None then None
                               else allow_test_run_until r),
                            simulate_until_node_id :=
                              (if simulate_until_node_id w \<noteq> None then None
                               else simulate_until_node_id r)\<rparr>
                    else r) (workflows db)\<rparr>"

text \<open>
  \<open>AutomationWorkflowHistory.objects.filter(workflow=workflow).order_by("-started_on")\<close>:
  the rows of one workflow, in the order the database gives them.
\<close>

definition history_latest_first :: "engine \<Rightarrow> nat \<Rightarrow> history list" where
  "history_latest_first db workflow =
     order_by_started_on_desc db (filter (\<lambda>h. h_workflow_id h = workflow) (histories db))"

definition check_too_many_errors :: "settings \<Rightarrow> engine \<Rightarrow> workflow \<Rightarrow> error + unit" where
  "check_too_many_errors cfg db w =
     (let max_errors = AUTOMATION_WORKFLOW_MAX_CONSECUTIVE_ERRORS cfg;
          statuses = take (max_errors + 1) (map status (history_latest_first db (wf_id w)));
          statuses = (if statuses \<noteq> [] \<and> hd statuses = STARTED then tl statuses else statuses)
      in if length statuses < max_errors then Inr ()
         else if list_all (\<lambda>st. st = ERROR) statuses then Inl AutomationWorkflowTooManyErrors
         else Inr ())"

definition disable_workflow :: "engine \<Rightarrow> workflow \<Rightarrow> engine" where
  "disable_workflow db w =
     (let workflow_ids = wf_id w # (case get_original_workflow db w of
                                      Some original_workflow \<Rightarrow> [wf_id original_workflow]
                                    | None \<Rightarrow> [])
      in db\<lparr>workflows :=
              map (\<lambda>r. if wf_id r \<in> set workflow_ids then r\<lparr>wf_state := Disabled\<rparr> else r)
                (workflows db)\<rparr>)"

text \<open>
  \<open>before_run\<close> raises the first failing check; what the earlier steps wrote stays
  written, so the result is the new state and the exception, if any.
\<close>

definition before_run :: "settings \<Rightarrow> datetime \<Rightarrow> engine \<Rightarrow> workflow \<Rightarrow> engine \<times> error option" where
  "before_run cfg now db w =
     (let db1 = reset_workflow_temporary_states db w
      in case check_too_many_errors cfg db1 w of
           Inl e \<Rightarrow> (db1, Some e)
         | Inr _ \<Rightarrow>
             (case check_is_rate_limited cfg now (wf_id w) (rate_limit_cache db1) of
                Inl e \<Rightarrow> (db1, Some e)
              | Inr cache \<Rightarrow> (db1\<lparr>rate_limit_cache := cache\<rparr>, None)))"

text \<open>
  Modelled from the spec: \<open>AutomationHistoryHandler.create_workflow_history\<close> is not among
  the sources. The spec says "a history entry is opened (status Started)".
\<close>

definition create_workflow_history :: "engine \<Rightarrow> workflow \<Rightarrow> datetime \<Rightarrow> bool \<Rightarrow> engine \<times> history" where
  "create_workflow_history db w start_time test_run =
     (let h = \<lparr>h_workflow_id = wf_id w, started_on = start_time, completed_on = None,
                is_test_run = test_run, status = STARTED, message = None\<rparr>
      in (db\<lparr>histories := histories db @ [h]\<rparr>, h))"

text \<open>
  Modelled from the spec: \<open>AutomationWorkflow.get_trigger\<close> is not among the sources. The
  spec says a workflow has exactly one trigger, its entry point; a workflow without one
  makes the call raise.
\<close>

definition get_trigger :: "store \<Rightarrow> workflow \<Rightarrow> node option" where
  "get_trigger s w =
     find (\<lambda>nd. workflow_id nd = wf_id w \<and> is_workflow_trigger (ntype nd)) s"

text \<open>
  The body of the \<open>try\<close> block of \<open>start_workflow\<close>: the pre-run checks on the original
  workflow, then the dispatch from the trigger of the executing workflow. The result is the
  state it leaves and the exception raised, if any. \<open>fuel\<close> bounds the recursion of the
  dispatch as the interpreter's recursion limit does; running out of it is a
  \<open>RecursionError\<close>, an exception like any other.
\<close>

definition try_block ::
  "settings \<Rightarrow> nat \<Rightarrow> service \<Rightarrow> store \<Rightarrow> engine \<Rightarrow> workflow \<Rightarrow> workflow
     \<Rightarrow> dispatch_context \<Rightarrow> datetime \<Rightarrow> engine \<times> error option" where
  "try_block cfg fuel svc s db w original_workflow dispatch_context check_time =
     (case before_run cfg check_time db original_workflow of
        (d, Some e) \<Rightarrow> (d, Some e)
      | (d, None) \<Rightarrow>
          (case get_trigger s w of
             None \<Rightarrow> (d, Some UnexpectedException)
           | Some trigger \<Rightarrow>
               (case dispatch_node fuel svc s trigger dispatch_context of
                  None \<Rightarrow> (d, Some UnexpectedException)
                | Some (ctx, e) \<Rightarrow> (d, e))))"

text \<open>
  The \<open>except\<close> and \<open>else\<close> clauses: the status the history entry will get, and the
  disabling of the workflow when the circuit breaker fired. The last \<open>except\<close> clause is
  \<open>except Exception\<close>, so an exception that is not an \<open>Exception\<close> enters no clause:
  \<open>history_status\<close> and \<open>history_message\<close> are then never assigned, which is the status
  \<open>None\<close>.
\<close>

definition handle_outcome ::
  "engine \<Rightarrow> workflow \<Rightarrow> error option \<Rightarrow> engine \<times> history_status option" where
  "handle_outcome db w raised =
     (case raised of
        Some e \<Rightarrow> if e = AutomationWorkflowTooManyErrors
                  then (disable_workflow db w, Some DISABLED)
                  else if e = KeyboardInterruptOrSystemExit
                  then (db, None)
                  else (db, Some ERROR)
      | None \<Rightarrow> (db, Some SUCCESS))"

text \<open>
  \<open>start_workflow\<close>. The three readings of the clock are parameters: \<open>start_time\<close>, the
  time of the rate-limit check and the time of completion. The result is the state the
  call leaves and the exception that escapes it, if any. The history object \<open>h\<close> is bound
  exactly when the run is not a simulation, and its row is addressed by its position in
  the table. The \<open>finally\<close> block runs on every path. When no clause of the \<open>try\<close> statement
  was entered, it sets \<open>completed_on\<close> on the object and then reads \<open>history_message\<close>,
  which raises \<open>UnboundLocalError\<close> before \<open>history.save()\<close>: the row is not written. In a
  simulation the block does nothing and the uncaught exception goes on.
\<close>

definition start_workflow ::
  "settings \<Rightarrow> nat \<Rightarrow> service \<Rightarrow> store \<Rightarrow> engine \<Rightarrow> workflow \<Rightarrow> node option
     \<Rightarrow> datetime \<Rightarrow> datetime \<Rightarrow> datetime \<Rightarrow> engine \<times> error option" where
  "start_workflow cfg fuel svc s db w simulate_until start_time check_time end_time =
     (case get_original_workflow db w of
        None \<Rightarrow> (db, Some AutomationWorkflowDoesNotExist)
      | Some original_workflow \<Rightarrow>
          (let test_run = (wf_id original_workflow = wf_id w);
               is_simulation = (simulate_until \<noteq> None);
               dispatch_context = \<lparr>simulate_until_node = simulate_until, results = [],
                                    dispatched = [], refreshed = []\<rparr>;
               (db1, h) = (if \<not> is_simulation
                           then map_prod id Some
                                  (create_workflow_history db original_workflow start_time test_run)
                           else (db, None));
               (db2, raised) =
                  try_block cfg fuel svc s db1 w original_workflow dispatch_context check_time;
               (db3, history_status) = handle_outcome db2 w raised
           in case h of
                Some entry \<Rightarrow>
                  (case history_status of
                     Some st \<Rightarrow>
                       (db3\<lparr>histories :=
                              (histories db3)[length (histories db) :=
                                 entry\<lparr>completed_on := Some end_time, message := raised,
                                        status := st\<rparr>]\<rparr>, None)
                   | None \<Rightarrow> (db3, Some UnboundLocalError))
              | None \<Rightarrow>
                  (case history_status of
                     Some st \<Rightarrow> (db3, None)
                   | None \<Rightarrow> (db3, raised))))"

subsection \<open>The words of the circuit-breaker claim\<close>

text \<open>
  These are not code: \<open>latest_statuses\<close> is the run history of a workflow as statuses,
  latest first; \<open>without_leading_started\<close> excludes a leading in-progress entry; and
  \<open>n_latest_all_error n\<close> says that there are at least \<open>n\<close> entries and the \<open>n\<close> most
  recent of them all have status Error. \<open>latest_first rows xs\<close> says that \<open>xs\<close> is an
  answer to \<open>order_by("-started_on")\<close> over \<open>rows\<close>: the same rows, no start time followed
  by a later one.
\<close>

definition latest_first :: "history list \<Rightarrow> history list \<Rightarrow> bool" where
  "latest_first rows xs = (mset xs = mset rows \<and> sorted (rev (map started_on xs)))"

definition latest_statuses :: "engine \<Rightarrow> workflow \<Rightarrow> history_status list" where
  "latest_statuses db w = map status (history_latest_first db (wf_id w))"

definition without_leading_started :: "history_status list \<Rightarrow> history_status list" where
  "without_leading_started xs = (if xs \<noteq> [] \<and> hd xs = STARTED then tl xs else xs)"

definition n_latest_all_error :: "nat \<Rightarrow> history_status list \<Rightarrow> bool" where
  "n_latest_all_error n xs = (n \<le> length xs \<and> list_all (\<lambda>st. st = ERROR) (take n xs))"

definition states :: "engine \<Rightarrow> (nat \<times> workflow_state) list" where
  \<comment> \<open>the state of every workflow row, by id\<close>
  "states db = map (\<lambda>r. (wf_id r, wf_state r)) (workflows db)"

subsection \<open>Example values\<close>

definition example_settings :: settings where
  "example_settings = \<lparr>AUTOMATION_WORKFLOW_RATE_LIMIT_CACHE_EXPIRY_SECONDS = 60,
                        AUTOMATION_WORKFLOW_RATE_LIMIT_MAX_RUNS = 3,
                        AUTOMATION_WORKFLOW_MAX_CONSECUTIVE_ERRORS = 3\<rparr>"

definition example_service :: service where
  "example_service = (\<lambda>nd rs. Inr \<lparr>output_uid = '''', result_data = ''ok''\<rparr>)"

definition example_workflow :: "nat \<Rightarrow> nat option \<Rightarrow> workflow_state \<Rightarrow> workflow" where
  \<comment> \<open>workflow \<open>i\<close>, published from \<open>p\<close> if any, in the given state, not armed\<close>
  "example_workflow i p st =
     \<lparr>wf_id = i, published_from_id = p, wf_state = st,
      allow_test_run_until = None, simulate_until_node_id = None\<rparr>"

definition example_engine :: "workflow list \<Rightarrow> history list \<Rightarrow> engine" where
  \<comment> \<open>an empty cache, and a database that lists rows of equal start latest insertion first\<close>
  "example_engine ws hs =
     \<lparr>workflows = ws, histories = hs, rate_limit_cache = (\<lambda>k. None),
      order_by_started_on_desc = (\<lambda>rows. rev (sort_key started_on rows))\<rparr>"

definition interrupted_service :: service where
  \<comment> \<open>the call is interrupted: it raises \<open>KeyboardInterrupt\<close>\<close>
  "interrupted_service = (\<lambda>nd rs. Inl OtherBaseException)"

definition example_history :: "nat \<Rightarrow> datetime \<Rightarrow> history_status \<Rightarrow> history" where
  \<comment> \<open>a closed entry of workflow \<open>i\<close> that started at \<open>t\<close>\<close>
  "example_history i t st =
     \<lparr>h_workflow_id = i, started_on = t, completed_on = Some t, is_test_run = False,
      status = st, message = None\<rparr>"

definition temporary_states :: "engine \<Rightarrow> (nat \<times> datetime option \<times> nat option) list" where
  \<comment> \<open>the test-run and simulation flags of every workflow row, by id\<close>
  "temporary_states db =
     map (\<lambda>r. (wf_id r, allow_test_run_until r, simulate_until_node_id r)) (workflows db)"

section \<open>Rate limiting: the claim\<close>

lemma filter_in_window_conv:
  "filter (in_window sw) data = map Datetime [t. Datetime t \<leftarrow> data, sw < t]"
proof (induction data)
  case Nil
  show ?case by simp
next
  case (Cons x xs)
  then show ?case by (cases x) simp_all
qed

lemma length_recorded_within:
  "length (recorded_within w now data) =
   length (filter (in_window (now - timedelta_seconds w)) data)"
  by (simp add: recorded_within_def timedelta_seconds_def filter_in_window_conv)

text \<open>
  C2. A start is refused with \<open>AutomationWorkflowRateLimited\<close> exactly when at least
  \<open>MAX_RUNS\<close> recorded timestamps lie within the last \<open>EXPIRY_SECONDS\<close> seconds.
  Otherwise the new stored list is exactly the timestamps within the window (older items
  are pruned) followed by the current timestamp. In particular, with a window of 60
  seconds and a maximum of 3, four events within 60 seconds starting from an empty
  window admit the first three and refuse the fourth.
\<close>

theorem rate_limit_sliding_window:
  fixes cfg :: settings and now :: datetime and data :: "cache_item list"
  defines "w \<equiv> AUTOMATION_WORKFLOW_RATE_LIMIT_CACHE_EXPIRY_SECONDS cfg"
  defines "m \<equiv> AUTOMATION_WORKFLOW_RATE_LIMIT_MAX_RUNS cfg"
  shows "(check_is_rate_limited_value cfg now data = Inl AutomationWorkflowRateLimited
            \<longleftrightarrow> m \<le> length (recorded_within w now data))
       \<and> (length (recorded_within w now data) < m \<longrightarrow>
            check_is_rate_limited_value cfg now data
              = Inr (map Datetime (recorded_within w now data) @ [Datetime now]))
       \<and> (w = 60 \<and> m = 3 \<and> t1 \<le> t2 \<and> t2 \<le> t3 \<and> t3 \<le> t4 \<and> t4 < t1 + 60 * 1000000 \<longrightarrow>
            check_is_rate_limited_value cfg t1 [] = Inr [Datetime t1]
          \<and> check_is_rate_limited_value cfg t2 [Datetime t1] = Inr [Datetime t1, Datetime t2]
          \<and> check_is_rate_limited_value cfg t3 [Datetime t1, Datetime t2]
               = Inr [Datetime t1, Datetime t2, Datetime t3]
          \<and> check_is_rate_limited_value cfg t4 [Datetime t1, Datetime t2, Datetime t3]
               = Inl AutomationWorkflowRateLimited)"
proof (intro conjI impI)
  show "check_is_rate_limited_value cfg now data = Inl AutomationWorkflowRateLimited
          \<longleftrightarrow> m \<le> length (recorded_within w now data)"
    by (simp add: check_is_rate_limited_value_def Let_def length_recorded_within w_def m_def)
next
  assume "length (recorded_within w now data) < m"
  then show "check_is_rate_limited_value cfg now data
               = Inr (map Datetime (recorded_within w now data) @ [Datetime now])"
    by (simp add: check_is_rate_limited_value_def Let_def length_recorded_within
        recorded_within_def timedelta_seconds_def filter_in_window_conv w_def m_def)
next
  assume h: "w = 60 \<and> m = 3 \<and> t1 \<le> t2 \<and> t2 \<le> t3 \<and> t3 \<le> t4 \<and> t4 < t1 + 60 * 1000000"
  then show "check_is_rate_limited_value cfg t1 [] = Inr [Datetime t1]"
    by (simp add: check_is_rate_limited_value_def Let_def w_def m_def)
  from h show "check_is_rate_limited_value cfg t2 [Datetime t1] = Inr [Datetime t1, Datetime t2]"
    by (simp add: check_is_rate_limited_value_def Let_def timedelta_seconds_def w_def m_def)
  from h show "check_is_rate_limited_value cfg t3 [Datetime t1, Datetime t2]
                 = Inr [Datetime t1, Datetime t2, Datetime t3]"
    by (simp add: check_is_rate_limited_value_def Let_def timedelta_seconds_def w_def m_def)
  from h show "check_is_rate_limited_value cfg t4 [Datetime t1, Datetime t2, Datetime t3]
                 = Inl AutomationWorkflowRateLimited"
    by (simp add: check_is_rate_limited_value_def Let_def timedelta_seconds_def w_def m_def)
qed

theorem rate_limit_sliding_window_witness:
  "check_is_rate_limited_value
      \<lparr>AUTOMATION_WORKFLOW_RATE_LIMIT_CACHE_EXPIRY_SECONDS = 60,
       AUTOMATION_WORKFLOW_RATE_LIMIT_MAX_RUNS = 3,
       AUTOMATION_WORKFLOW_MAX_CONSECUTIVE_ERRORS = 3\<rparr> 30000000
      [Datetime 0, Datetime 10000000, Datetime 20000000] = Inl AutomationWorkflowRateLimited
   \<and> check_is_rate_limited_value
      \<lparr>AUTOMATION_WORKFLOW_RATE_LIMIT_CACHE_EXPIRY_SECONDS = 60,
       AUTOMATION_WORKFLOW_RATE_LIMIT_MAX_RUNS = 3,
       AUTOMATION_WORKFLOW_MAX_CONSECUTIVE_ERRORS = 3\<rparr> 20000000
      [Datetime 0, Datetime 10000000] = Inr [Datetime 0, Datetime 10000000, Datetime 20000000]
   \<and> check_is_rate_limited_value
      \<lparr>AUTOMATION_WORKFLOW_RATE_LIMIT_CACHE_EXPIRY_SECONDS = 60,
       AUTOMATION_WORKFLOW_RATE_LIMIT_MAX_RUNS = 3,
       AUTOMATION_WORKFLOW_MAX_CONSECUTIVE_ERRORS = 3\<rparr> 90000000
      [Datetime 0, Datetime 10000000, Datetime 40000000] = Inr [Datetime 40000000, Datetime 90000000]"
  using rate_limit_sliding_window
    [where cfg = "\<lparr>AUTOMATION_WORKFLOW_RATE_LIMIT_CACHE_EXPIRY_SECONDS = 60,
       AUTOMATION_WORKFLOW_RATE_LIMIT_MAX_RUNS = 3,
       AUTOMATION_WORKFLOW_MAX_CONSECUTIVE_ERRORS = 3\<rparr>"
     and now = 90000000 and data = "[Datetime 0, Datetime 10000000, Datetime 40000000]"
     and ?t1.0 = 0 and ?t2.0 = 10000000 and ?t3.0 = 20000000 and ?t4.0 = 30000000]
  by (simp add: recorded_within_def)

section \<open>Lists: maxima and sorting\<close>






section \<open>Unfolding the example values\<close>

lemmas example_defs = example_node_def example_helpers_def anyone_def action_type_def trigger_type_def

lemmas run_example_defs = example_settings_def example_service_def example_workflow_def
  example_history_def example_engine_def interrupted_service_def

section \<open>Graph store: how the relinking acts on each row\<close>

lemma node_id_relink [simp]: "node_id (relink p out r) = node_id r"
  by (simp add: relink_def)

lemma workflow_id_relink [simp]: "workflow_id (relink p out r) = workflow_id r"
  by (simp add: relink_def)

lemma find_map_same_id:
  assumes "\<And>m. node_id (f m) = node_id m"
  shows "find (\<lambda>obj. node_id obj = i) (map f objs) = map_option f (find (\<lambda>obj. node_id obj = i) objs)"
  using assms by (induction objs) simp_all

lemma find_id_None: "find (\<lambda>obj. node_id obj = i) objs = None \<longleftrightarrow> i \<notin> node_id ` set objs"
  by (induction objs) auto

lemma bulk_update_row_relink:
  "bulk_update_row
     (map (\<lambda>m. case out of None \<Rightarrow> m\<lparr>previous_node_id := p\<rparr>
               | Some v \<Rightarrow> m\<lparr>previous_node_id := p, previous_node_output := v\<rparr>) objs)
     (out \<noteq> None) r
   = (if node_id r \<in> node_id ` set objs then relink p out r else r)"
proof (cases "find (\<lambda>obj. node_id obj = node_id r) objs")
  case None
  then have "node_id r \<notin> node_id ` set objs"
    using find_id_None[of "node_id r" objs] by simp
  with None show ?thesis
    by (cases out) (simp_all add: bulk_update_row_def find_map_same_id)
next
  case (Some obj)
  then have "node_id r \<in> node_id ` set objs"
    using find_id_None[of "node_id r" objs] by simp
  with Some show ?thesis
    by (cases out) (simp_all add: bulk_update_row_def find_map_same_id relink_def)
qed

lemma update_previous_node_rows:
  "fst (update_previous_node p objs out s) =
     map (\<lambda>r. if node_id r \<in> node_id ` set objs then relink p out r else r) s"
  unfolding update_previous_node_def bulk_update_def Let_def fst_conv
  by (rule map_cong[OF refl]) (rule bulk_update_row_relink)

lemma id_in_filter_map:
  assumes "distinct (map node_id s)" and "\<And>m. node_id (f m) = node_id m" and "r \<in> set s"
  shows "node_id r \<in> node_id ` set (filter Q (map f s)) \<longleftrightarrow> Q (f r)"
proof
  assume "node_id r \<in> node_id ` set (filter Q (map f s))"
  then obtain m where m: "m \<in> set s" "Q (f m)" "node_id (f m) = node_id r" by auto
  then have "node_id m = node_id r" using assms(2) by simp
  with assms(1,3) m(1) have "m = r" by (meson distinct_map inj_onD)
  with m(2) show "Q (f r)" by simp
next
  assume "Q (f r)"
  with assms(3) have "f r \<in> set (filter Q (map f s))" by simp
  then have "node_id (f r) \<in> node_id ` set (filter Q (map f s))" by (rule imageI)
  then show "node_id r \<in> node_id ` set (filter Q (map f s))" using assms(2) by simp
qed

lemma id_in_filter:
  assumes "distinct (map node_id s)" and "r \<in> set s"
  shows "node_id r \<in> node_id ` set (filter Q s) \<longleftrightarrow> Q r"
  using id_in_filter_map[OF assms(1), of "\<lambda>m. m" r Q] assms(2) by simp

lemma node_get_next_nodes_filter:
  "node_get_next_nodes s nd out = filter (follows nd out) s"
  by (cases out)
     (auto simp: node_get_next_nodes_def get_next_nodes_def get_nodes_def follows_def Let_def
           intro: filter_cong)

lemma move_node_fst:
  "fst (move_node env s nd after_node out new_order) =
     (let s1 = fst (update_previous_node (previous_node_id nd) (node_get_next_nodes s nd None)
                      (Some (previous_node_output nd)) s);
          nd' = nd\<lparr>previous_node_id := Some (node_id after_node),
                    previous_node_output := or_empty out,
                    order := move_order env s nd after_node new_order\<rparr>
      in fst (update_previous_node (Some (node_id nd)) (node_get_next_nodes s1 after_node out)
                (if truthy out then Some [] else None) (save_position nd' s1)))"
  by (simp add: move_node_def move_order_def Let_def case_prod_beta)

lemma move_node_rows:
  assumes d: "distinct (map node_id s)"
  shows "fst (move_node env s nd after_node out new_order)
           = map (move_row nd after_node out (move_order env s nd after_node new_order)) s"
proof -
  let ?f1 = "\<lambda>r. if follows nd None r
                  then relink (previous_node_id nd) (Some (previous_node_output nd)) r else r"
  let ?s1 = "fst (update_previous_node (previous_node_id nd) (node_get_next_nodes s nd None)
                   (Some (previous_node_output nd)) s)"
  have id_f1: "\<And>m. node_id (?f1 m) = node_id m" by simp
  have s1: "?s1 = map ?f1 s"
    unfolding update_previous_node_rows node_get_next_nodes_filter
  proof (rule map_cong[OF refl])
    fix r assume "r \<in> set s"
    from id_in_filter[OF d this, of "follows nd None"]
    show "(if node_id r \<in> node_id ` set (filter (follows nd None) s)
           then relink (previous_node_id nd) (Some (previous_node_output nd)) r else r) = ?f1 r"
      by simp
  qed
  let ?ord = "move_order env s nd after_node new_order"
  let ?g = "\<lambda>r. if node_id r = node_id nd
                 then r\<lparr>previous_node_id := Some (node_id after_node),
                        previous_node_output := or_empty out, order := ?ord\<rparr> else r"
  let ?h = "\<lambda>r. if node_id r \<in> node_id ` set (filter (follows after_node out) (map ?f1 s))
                 then relink (Some (node_id nd)) (if truthy out then Some [] else None) r
                 else r"
  have g: "\<And>t. save_position (nd\<lparr>previous_node_id := Some (node_id after_node),
                    previous_node_output := or_empty out, order := ?ord\<rparr>) t = map ?g t"
    by (simp add: save_position_def)
  have "fst (move_node env s nd after_node out new_order) = map ?h (map ?g (map ?f1 s))"
    unfolding move_node_fst Let_def s1 g
    unfolding update_previous_node_rows node_get_next_nodes_filter ..
  also have "\<dots> = map (move_row nd after_node out ?ord) s"
    unfolding map_map
  proof (rule map_cong[OF refl])
    fix r assume r: "r \<in> set s"
    have mem: "node_id r \<in> node_id ` set (filter (follows after_node out) (map ?f1 s))
                 \<longleftrightarrow> follows after_node out (?f1 r)"
      by (rule id_in_filter_map[OF d id_f1 r])
    have idg: "node_id (?g (?f1 r)) = node_id r" by simp
    show "(?h \<circ> (?g \<circ> ?f1)) r = move_row nd after_node out ?ord r"
      unfolding o_def move_row_def Let_def idg mem by simp
  qed
  finally show ?thesis .
qed

lemma handler_get_node_map:
  assumes "distinct (map node_id s)" and "\<And>r. node_id (f r) = node_id r" and "m \<in> set s"
  shows "handler_get_node (map f s) (node_id m) = Inr (f m)"
proof -
  have "find (\<lambda>r. node_id r = node_id m) s = Some m"
    using assms(1,3)
  proof (induction s)
    case Nil
    then show ?case by simp
  next
    case (Cons a s)
    then show ?case by (auto simp: image_iff)
  qed
  then show ?thesis
    by (simp add: handler_get_node_def find_map_same_id[OF assms(2)])
qed

lemma handler_get_node_mem:
  assumes "distinct (map node_id s)" and "m \<in> set s"
  shows "handler_get_node s (node_id m) = Inr m"
  using handler_get_node_map[OF assms(1), of "\<lambda>r. r" m] assms(2) by simp

lemma node_id_move_row [simp]: "node_id (move_row nd a out ord r) = node_id r"
  by (simp add: move_row_def Let_def)

lemma workflow_id_move_row [simp]: "workflow_id (move_row nd a out ord r) = workflow_id r"
  by (simp add: move_row_def Let_def)

lemma ntype_move_row [simp]: "ntype (move_row nd a out ord r) = ntype r"
  by (simp add: move_row_def Let_def relink_def)

lemma get_node_mem:
  assumes "distinct (map node_id s)" and "m \<in> set s" and "usr ReadAutomationNode"
  shows "get_node usr s (node_id m) = Inr m"
  using handler_get_node_mem[OF assms(1,2)] assms(3)
  by (simp add: get_node_def check_permissions_def)

lemma service_move_node_ok:
  assumes "distinct (map node_id s)" and "x \<in> set s" and "y \<in> set s"
    and "usr ReadAutomationNode" and "usr UpdateAutomationNode" and "\<not> is_fixed (ntype x)"
  shows "service_move_node env usr s (node_id x) (node_id y) out new_order
           = Inr (move_node env s x y out new_order)"
  using assms
  by (simp add: service_move_node_def get_node_mem check_permissions_def)

text \<open>move_row when the truth values of its three tests are known\<close>

lemma move_row_moved:
  assumes "\<not> follows nd None r" and "\<not> follows a out r" and "node_id r = node_id nd"
  shows "move_row nd a out ord r
           = r\<lparr>previous_node_id := Some (node_id a), previous_node_output := or_empty out,
                order := ord\<rparr>"
  using assms by (simp add: move_row_def Let_def)

lemma move_row_origin:
  assumes "follows nd None r" and "node_id r \<noteq> node_id nd"
    and "\<not> follows a out (relink (previous_node_id nd) (Some (previous_node_output nd)) r)"
  shows "move_row nd a out ord r
           = relink (previous_node_id nd) (Some (previous_node_output nd)) r"
  using assms by (simp add: move_row_def Let_def)

lemma move_row_destination:
  assumes "\<not> follows nd None r" and "node_id r \<noteq> node_id nd" and "follows a out r"
  shows "move_row nd a out ord r
           = relink (Some (node_id nd)) (if truthy out then Some '''' else None) r"
  using assms by (simp add: move_row_def Let_def)

lemma move_row_other:
  assumes "\<not> follows nd None r" and "node_id r \<noteq> node_id nd" and "\<not> follows a out r"
  shows "move_row nd a out ord r = r"
  using assms by (simp add: move_row_def Let_def)

lemma link_move_round_trip_row:
  assumes xp: "previous_node_id x = Some (node_id p)"
    and ne: "node_id y \<noteq> node_id x" "node_id y \<noteq> node_id p" "node_id p \<noteq> node_id x"
    and wf: "workflow_id y = workflow_id x" "workflow_id p = workflow_id x"
    and slot: "previous_node_id m = Some (node_id p) \<and> previous_node_output m = previous_node_output x
               \<and> workflow_id m = workflow_id x \<longrightarrow> node_id m = node_id x"
    and same: "node_id m = node_id x \<longrightarrow> m = x"
    and dflt: "previous_node_id m = Some (node_id x) \<and> workflow_id m = workflow_id x
               \<longrightarrow> previous_node_output m = ''''"
    and dest: "previous_node_id m = Some (node_id y) \<and> workflow_id m = workflow_id y \<and> k1 = None
               \<longrightarrow> previous_node_output m = ''''"
    and x1: "x1 = move_row x y k1 o1 x" and p1: "p1 = move_row x y k1 o1 p"
  shows "link (move_row x1 p1 (Some (previous_node_output x)) o2 (move_row x y k1 o1 m)) = link m"
proof -
  let ?k2 = "Some (previous_node_output x)"
  have x_nf: "\<not> follows x None x" "\<not> follows y k1 x"
    using xp ne by (simp_all add: follows_def)
  have x1_eq: "x1 = x\<lparr>previous_node_id := Some (node_id y), previous_node_output := or_empty k1,
                       order := o1\<rparr>"
    unfolding x1 by (rule move_row_moved[OF x_nf refl])
  have p1_id: "node_id p1 = node_id p" and p1_wf: "workflow_id p1 = workflow_id x"
    using p1 wf by simp_all
  have fx1: "\<And>r. follows x1 None r = follows x None r"
    by (simp add: follows_def x1_eq)
  have fp1: "\<And>r. follows p1 ?k2 r
               = (previous_node_id r = Some (node_id p)
                  \<and> previous_node_output r = previous_node_output x
                  \<and> workflow_id r = workflow_id x)"
    by (simp add: follows_def p1_id p1_wf)
  have x1_id: "node_id x1 = node_id x" by (simp add: x1_eq)
  consider (moved) "node_id m = node_id x"
    | (origin) "node_id m \<noteq> node_id x" "follows x None m"
    | (destination) "node_id m \<noteq> node_id x" "\<not> follows x None m" "follows y k1 m"
    | (other) "node_id m \<noteq> node_id x" "\<not> follows x None m" "\<not> follows y k1 m"
    by blast
  then show ?thesis
  proof cases
    case moved
    with same have mx: "m = x" by simp
    have a: "\<not> follows x1 None x1" "\<not> follows p1 ?k2 x1" 
      using ne by (simp_all add: follows_def x1_eq p1_id p1_wf)
    have "move_row x1 p1 ?k2 o2 x1
            = x1\<lparr>previous_node_id := Some (node_id p1), previous_node_output := or_empty ?k2,
                  order := o2\<rparr>"
      by (rule move_row_moved[OF a refl])
    then show ?thesis
      using xp by (simp add: mx x1[symmetric] link_def p1_id or_empty_def x1_eq)
  next
    case origin
    let ?r = "relink (previous_node_id x) (Some (previous_node_output x)) m"
    have nd: "\<not> follows y k1 ?r"
      using ne xp by (simp add: follows_def relink_def)
    have r: "move_row x y k1 o1 m = ?r"
      by (rule move_row_origin[OF origin(2,1) nd])
    have b: "\<not> follows x1 None ?r" "node_id ?r \<noteq> node_id x1" "follows p1 ?k2 ?r"
      using ne xp origin by (simp_all add: follows_def relink_def x1_eq p1_id p1_wf)
    have "move_row x1 p1 ?k2 o2 ?r
            = relink (Some (node_id x1)) (if truthy ?k2 then Some '''' else None) ?r"
      by (rule move_row_destination[OF b])
    moreover have "previous_node_output m = ''''" "previous_node_id m = Some (node_id x)"
      using dflt origin(2) by (simp_all add: follows_def)
    ultimately show ?thesis
      by (simp add: r link_def relink_def truthy_def x1_id)
  next
    case destination
    let ?r = "relink (Some (node_id x)) (if truthy k1 then Some '''' else None) m"
    have r: "move_row x y k1 o1 m = ?r"
      by (rule move_row_destination[OF destination(2,1,3)])
    have c1: "follows x1 None ?r" 
      using destination(3) wf by (simp add: follows_def relink_def x1_eq)
    have c2: "node_id ?r \<noteq> node_id x1" using destination(1) by (simp add: x1_id)
    have c3: "\<not> follows p1 ?k2 (relink (previous_node_id x1) (Some (previous_node_output x1)) ?r)"
      using ne by (simp add: follows_def relink_def x1_eq p1_id p1_wf)
    have "move_row x1 p1 ?k2 o2 ?r
            = relink (previous_node_id x1) (Some (previous_node_output x1)) ?r"
      by (rule move_row_origin[OF c1 c2 c3])
    moreover have "previous_node_id m = Some (node_id y)" "previous_node_output m = or_empty k1"
      using destination(3) dest by (cases k1; simp add: follows_def or_empty_def)+
    ultimately show ?thesis
      by (simp add: r link_def relink_def x1_eq)
  next
    case other
    have r: "move_row x y k1 o1 m = m"
      by (rule move_row_other[OF other(2,1,3)])
    have d: "\<not> follows x1 None m" "node_id m \<noteq> node_id x1" "\<not> follows p1 ?k2 m"
      using other slot by (auto simp: fx1 fp1 x1_id)
    show ?thesis
      unfolding r by (simp add: move_row_other[OF d])
  qed
qed

section \<open>Create before a node\<close>

lemma update_previous_node_no_objs: "fst (update_previous_node q [] out t) = t"
  by (simp add: update_previous_node_rows map_idI)

lemma create_node_before:
  fixes env :: model_helpers and s :: store and new_id :: nat and nt :: node_type
    and w :: nat and b :: node and p :: nat and kw :: create_kwargs
  assumes "previous_node_id b = Some p" and "kw_previous_node_id kw = None"
  defines "nd \<equiv> \<lparr>node_id = new_id, workflow_id = w, ntype = nt,
                   parent_node_id = kw_parent_node_id kw,
                   previous_node_id = Some p,
                   previous_node_output =
                     (if previous_node_output b \<noteq> [] then previous_node_output b
                      else or_empty (kw_previous_node_output kw)),
                   order = get_unique_order_before_node env s b (kw_parent_node_id kw)\<rparr>"
  defines "objs \<equiv> filter (\<lambda>m. workflow_id m = w \<and> previous_node_id m = Some p
                        \<and> previous_node_output m = previous_node_output b) s"
  shows "create_node env s new_id nt w (Some b) kw
     = (map (\<lambda>r. if previous_node_output b \<noteq> [] \<and> node_id r = node_id b
                then r\<lparr>previous_node_output := []\<rparr> else r)
        (map (\<lambda>r. if node_id r \<in> node_id ` set objs
                   then relink (Some new_id) None r else r)
           (s @ [nd])), nd)"
proof -
  let ?objs = "filter (\<lambda>m. previous_node_id m = Some p
                     \<and> previous_node_output m = previous_node_output b) (get_nodes w s)"
  have objs: "?objs = objs"
    unfolding objs_def get_nodes_def filter_filter
    by (rule filter_cong[OF refl]) auto
  have nd: "\<lparr>node_id = new_id, workflow_id = w, ntype = nt,
             parent_node_id = kw_parent_node_id kw,
             previous_node_id = Some p,
             previous_node_output =
               (case (if previous_node_output b \<noteq> [] then Some (previous_node_output b)
                      else kw_previous_node_output kw) of None \<Rightarrow> [] | Some out \<Rightarrow> out),
             order = get_unique_order_before_node env s b (kw_parent_node_id kw)\<rparr> = nd"
    by (simp add: nd_def or_empty_def)
  have upd: "(if objs \<noteq> [] then fst (update_previous_node (Some new_id) objs None (s @ [nd]))
              else s @ [nd])
             = map (\<lambda>r. if node_id r \<in> node_id ` set objs
                        then relink (Some new_id) None r else r) (s @ [nd])"
    using update_previous_node_no_objs[of "Some new_id" None "s @ [nd]"]
    by (cases "objs = []") (simp_all add: update_previous_node_rows)
  have save: "\<And>t. (if previous_node_output b \<noteq> []
                  then save_previous_node_output (b\<lparr>previous_node_output := []\<rparr>) t else t)
               = map (\<lambda>r. if previous_node_output b \<noteq> [] \<and> node_id r = node_id b
                          then r\<lparr>previous_node_output := []\<rparr> else r) t"
    by (simp add: save_previous_node_output_def map_idI)
  have "create_node env s new_id nt w (Some b) kw
          = ((if previous_node_output b \<noteq> []
              then save_previous_node_output (b\<lparr>previous_node_output := []\<rparr>)
                     (if objs \<noteq> [] then fst (update_previous_node (Some new_id) objs None (s @ [nd]))
                      else s @ [nd])
              else (if objs \<noteq> [] then fst (update_previous_node (Some new_id) objs None (s @ [nd]))
                    else s @ [nd])), nd)"
    unfolding create_node_def Let_def option.case assms(1,2) objs nd
    by (simp add: nd_def)
  then show ?thesis unfolding save upd .
qed

text \<open>
  C3, as the claim states it, fails: \<open>create_node\<close> takes the previous node of \<open>before\<close>
  only when the keyword arguments carry no \<open>previous_node_id\<close> of their own (the guard
  "if we don't already have a previous_node_id"). Created before node 2, which follows
  node 1, with \<open>previous_node_id = 4\<close> given, the new node follows node 4.
\<close>

theorem create_before_splice_counterexample:
  "previous_node_id (snd (create_node example_helpers
      [example_node 1 None '''', example_node 2 (Some 1) ''k'', example_node 3 (Some 1) ''k'',
       example_node 4 (Some 2) '''']
      9 action_type 1 (Some (example_node 2 (Some 1) ''k''))
      \<lparr>kw_previous_node_id = Some (Some 4), kw_previous_node_output = None,
       kw_parent_node_id = None, kw_order = None\<rparr>)) = Some 4
   \<and> previous_node_id (example_node 2 (Some 1) ''k'') = Some 1"
  by (simp add: create_node_def Let_def example_defs)

text \<open>
  C3, amended. When the keyword arguments carry no \<open>previous_node_id\<close>, creating a node
  before a node \<open>b\<close> of the workflow that follows \<open>p\<close> gives the new node the previous node
  \<open>p\<close>; if the branch key of \<open>b\<close> was not empty the new node takes it and \<open>b\<close> ends with the
  empty key, following the new node; and every node of the workflow that shared the
  \<open>(previous_node_id, previous_node_output)\<close> of \<open>b\<close> follows the new node. Ids are the
  primary key and the new id is fresh.
\<close>

theorem create_before_splice:
  assumes d: "distinct (map node_id s)"
    and fresh: "new_id \<notin> node_id ` set s"
    and b: "b \<in> set s" "workflow_id b = w" "previous_node_id b = Some p"
    and kw: "kw_previous_node_id kw = None"
  shows "\<exists>s' n. create_node env s new_id nt w (Some b) kw = (s', n)
           \<and> handler_get_node s' new_id = Inr n
           \<and> previous_node_id n = Some p
           \<and> (previous_node_output b \<noteq> '''' \<longrightarrow>
                 previous_node_output n = previous_node_output b
               \<and> handler_get_node s' (node_id b)
                   = Inr (b\<lparr>previous_node_id := Some new_id, previous_node_output := ''''\<rparr>))
           \<and> (\<forall>m\<in>set s. workflow_id m = w \<and> previous_node_id m = Some p
                    \<and> previous_node_output m = previous_node_output b
                 \<longrightarrow> (\<exists>m'. handler_get_node s' (node_id m) = Inr m'
                          \<and> previous_node_id m' = Some new_id))"
proof -
  let ?n = "\<lparr>node_id = new_id, workflow_id = w, ntype = nt,
                   parent_node_id = kw_parent_node_id kw,
                   previous_node_id = Some p,
                   previous_node_output =
                     (if previous_node_output b \<noteq> [] then previous_node_output b
                      else or_empty (kw_previous_node_output kw)),
                   order = get_unique_order_before_node env s b (kw_parent_node_id kw)\<rparr>"
  let ?Q = "\<lambda>m. workflow_id m = w \<and> previous_node_id m = Some p
                \<and> previous_node_output m = previous_node_output b"
  let ?f = "\<lambda>r. if node_id r \<in> node_id ` set (filter ?Q s)
                then relink (Some new_id) None r else r"
  let ?h = "\<lambda>r. if previous_node_output b \<noteq> [] \<and> node_id r = node_id b
                then r\<lparr>previous_node_output := []\<rparr> else r"
  let ?s' = "map ?h (map ?f (s @ [?n]))"
  have run: "create_node env s new_id nt w (Some b) kw = (?s', ?n)"
    by (rule create_node_before[OF b(3) kw])
  have n_id: "node_id ?n = new_id" and n_prev: "previous_node_id ?n = Some p" by simp_all
  have n_out: "previous_node_output b \<noteq> [] \<Longrightarrow> previous_node_output ?n = previous_node_output b"
    by simp
  have d': "distinct (map node_id (s @ [?n]))"
    using d fresh by simp
  have idhf: "\<And>r. node_id ((?h \<circ> ?f) r) = node_id r" by simp
  have get: "\<And>m. m \<in> set (s @ [?n]) \<Longrightarrow>
               handler_get_node ?s' (node_id m) = Inr ((?h \<circ> ?f) m)"
    unfolding map_map by (rule handler_get_node_map[OF d' idhf])
  have new_not_b: "new_id \<noteq> node_id b" using fresh b(1) by auto
  have new_not_mem: "new_id \<notin> node_id ` set (filter ?Q s)" using fresh by auto
  have hf_n: "(?h \<circ> ?f) ?n = ?n"
    using new_not_b new_not_mem by simp
  have get_n: "handler_get_node ?s' new_id = Inr ?n"
    using get[of ?n] hf_n by simp
  have mem: "\<And>m. m \<in> set s \<Longrightarrow> node_id m \<in> node_id ` set (filter ?Q s) \<longleftrightarrow> ?Q m"
    by (rule id_in_filter[OF d])
  have Qb: "?Q b" using b by simp
  have fb: "?f b = relink (Some new_id) None b"
    using mem[OF b(1)] Qb by simp
  have get_b: "previous_node_output b \<noteq> [] \<Longrightarrow>
      handler_get_node ?s' (node_id b)
        = Inr (b\<lparr>previous_node_id := Some new_id, previous_node_output := []\<rparr>)"
    using get[of b] b(1) unfolding o_def fb by (simp add: relink_def)
  have peers: "\<forall>m\<in>set s. ?Q m \<longrightarrow> (\<exists>m'. handler_get_node ?s' (node_id m) = Inr m'
                          \<and> previous_node_id m' = Some new_id)"
  proof (intro ballI impI)
    fix m assume m: "m \<in> set s" and q: "?Q m"
    have fm: "?f m = relink (Some new_id) None m"
      using mem[OF m] q by simp
    have "handler_get_node ?s' (node_id m) = Inr ((?h \<circ> ?f) m)" using get[of m] m by simp
    moreover have "previous_node_id ((?h \<circ> ?f) m) = Some new_id"
      unfolding o_def fm by (simp add: relink_def)
    ultimately show "\<exists>m'. handler_get_node ?s' (node_id m) = Inr m'
                          \<and> previous_node_id m' = Some new_id" by blast
  qed
  show ?thesis
    apply (rule exI[of _ ?s'])
    apply (rule exI[of _ ?n])
    using run get_n n_prev n_out get_b peers by blast
qed

theorem create_before_splice_witness:
  "\<exists>s' n. create_node example_helpers
      [example_node 1 None '''', example_node 2 (Some 1) ''k'', example_node 3 (Some 1) ''k'',
       example_node 4 (Some 2) '''']
      9 action_type 1 (Some (example_node 2 (Some 1) ''k''))
      \<lparr>kw_previous_node_id = None, kw_previous_node_output = None,
       kw_parent_node_id = None, kw_order = None\<rparr> = (s', n)
     \<and> handler_get_node s' 9 = Inr n
     \<and> previous_node_id n = Some 1
     \<and> previous_node_output n = ''k''
     \<and> handler_get_node s' 2
          = Inr ((example_node 2 (Some 1) ''k'')\<lparr>previous_node_id := Some 9,
                                                 previous_node_output := ''''\<rparr>)
     \<and> (\<exists>m'. handler_get_node s' 3 = Inr m' \<and> previous_node_id m' = Some 9)"
proof -
  from create_before_splice
    [where s = "[example_node 1 None '''', example_node 2 (Some 1) ''k'',
                 example_node 3 (Some 1) ''k'', example_node 4 (Some 2) '''']"
       and new_id = 9 and b = "example_node 2 (Some 1) ''k''" and w = 1 and p = 1
       and kw = "\<lparr>kw_previous_node_id = None, kw_previous_node_output = None,
                  kw_parent_node_id = None, kw_order = None\<rparr>"
       and env = example_helpers and nt = action_type]
  obtain s' n where
    "create_node example_helpers
      [example_node 1 None '''', example_node 2 (Some 1) ''k'', example_node 3 (Some 1) ''k'',
       example_node 4 (Some 2) '''']
      9 action_type 1 (Some (example_node 2 (Some 1) ''k''))
      \<lparr>kw_previous_node_id = None, kw_previous_node_output = None,
       kw_parent_node_id = None, kw_order = None\<rparr> = (s', n)"
    "handler_get_node s' 9 = Inr n"
    "previous_node_id n = Some 1"
    "previous_node_output n = ''k''"
    "handler_get_node s' 2
          = Inr ((example_node 2 (Some 1) ''k'')\<lparr>previous_node_id := Some 9,
                                                 previous_node_output := ''''\<rparr>)"
    "\<exists>m'. handler_get_node s' 3 = Inr m' \<and> previous_node_id m' = Some 9"
    by (auto simp: example_defs)
  then show ?thesis by blast
qed

section \<open>Move: relinking at the destination\<close>

text \<open>
  C4, as the claim states it, fails for a move of a node after itself, which the service
  accepts: the successors of the node are first moved up to its previous node, so none is
  left to follow it at the destination. Here node 2 of the chain 1, 2, 3 is moved after
  node 2 with no key: node 3 followed node 2 on its default branch and ends behind node 1.
\<close>

theorem move_destination_relink_counterexample:
  "map_sum id (\<lambda>(s', mv). map link s')
     (service_move_node example_helpers anyone
        [example_node 1 None '''', example_node 2 (Some 1) '''', example_node 3 (Some 2) '''']
        2 2 None None)
     = Inr [(1, None, ''''), (2, Some 2, ''''), (3, Some 1, '''')]
   \<and> link (example_node 3 (Some 2) '''') = (3, Some 2, '''')"
  by (simp add: service_move_node_def get_node_def handler_get_node_def
        check_permissions_def move_node_def node_get_next_nodes_def get_next_nodes_def get_nodes_def
        update_previous_node_def bulk_update_def bulk_update_row_def save_position_def
        or_empty_def truthy_def link_def Let_def example_defs)

text \<open>
  C4, amended. \<open>move_node(node, after_node, previous_node_output)\<close> with \<open>after_node\<close> another
  node than \<open>node\<close>: every node that followed \<open>after_node\<close> on the destination branch (the
  branch \<open>previous_node_output or ""\<close>, so the default branch when no key is given) before
  the move follows \<open>node\<close> afterwards, with the empty branch key. Ids are the primary key
  of the store. (When no key is given the code also relinks the successors of
  \<open>after_node\<close> on named branches, which keep their key; they are not on the destination
  branch.)
\<close>

theorem move_destination_relink:
  assumes "distinct (map node_id s)"
    and "node_id nd \<noteq> node_id after_node"
    and "m \<in> set s"
    and "previous_node_id m = Some (node_id after_node)"
    and "workflow_id m = workflow_id after_node"
    and "previous_node_output m = or_empty out"
  shows "\<exists>m'. handler_get_node (fst (move_node env s nd after_node out new_order)) (node_id m) = Inr m'
            \<and> previous_node_id m' = Some (node_id nd)
            \<and> previous_node_output m' = ''''"
proof -
  let ?ord = "move_order env s nd after_node new_order"
  let ?m' = "move_row nd after_node out ?ord m"
  have "handler_get_node (fst (move_node env s nd after_node out new_order)) (node_id m) = Inr ?m'"
    unfolding move_node_rows[OF assms(1)]
    by (rule handler_get_node_map[OF assms(1) _ assms(3)]) simp
  moreover have "previous_node_id ?m' = Some (node_id nd) \<and> previous_node_output ?m' = ''''"
    using assms(2,4,5,6)
    by (cases out)
       (auto simp: move_row_def Let_def follows_def relink_def or_empty_def truthy_def)
  ultimately show ?thesis by blast
qed

theorem move_destination_relink_witness:
  "\<exists>m'. handler_get_node
          (fst (move_node example_helpers
             [example_node 1 None '''', example_node 2 (Some 1) '''', example_node 3 (Some 2) '''',
              example_node 4 (Some 3) '''', example_node 5 (Some 4) ''k'']
             (example_node 2 (Some 1) '''') (example_node 4 (Some 3) '''') (Some ''k'') None)) 5
          = Inr m'
        \<and> previous_node_id m' = Some 2 \<and> previous_node_output m' = ''''"
  using move_destination_relink
    [where s = "[example_node 1 None '''', example_node 2 (Some 1) '''', example_node 3 (Some 2) '''',
              example_node 4 (Some 3) '''', example_node 5 (Some 4) ''k'']"
       and nd = "example_node 2 (Some 1) ''''" and after_node = "example_node 4 (Some 3) ''''"
       and m = "example_node 5 (Some 4) ''k''" and out = "Some ''k''"
       and env = example_helpers and new_order = None]
  by (simp add: example_defs or_empty_def)

section \<open>Move: there and back\<close>

text \<open>
  C5, as the claim states it, fails: moving a node after a node whose successor sits on a
  named branch, without giving a key, and moving it back leaves that successor on the
  default branch. Here node 2 is moved after node 4 and back after node 1; node 5 was on
  branch \<open>k\<close> of node 4 and ends on its default branch.
\<close>

theorem move_round_trip_counterexample:
  "map_sum id (map link)
     (move_there_and_back example_helpers anyone
        [example_node 1 None '''', example_node 2 (Some 1) '''', example_node 3 (Some 2) '''',
         example_node 4 (Some 3) '''', example_node 5 (Some 4) ''k'']
        2 4 None None 1 (Some '''') None)
     = Inr [(1, None, ''''), (2, Some 1, ''''), (3, Some 2, ''''), (4, Some 3, ''''), (5, Some 4, '''')]
   \<and> map link [example_node 1 None '''', example_node 2 (Some 1) '''', example_node 3 (Some 2) '''',
         example_node 4 (Some 3) '''', example_node 5 (Some 4) ''k'']
     = [(1, None, ''''), (2, Some 1, ''''), (3, Some 2, ''''), (4, Some 3, ''''), (5, Some 4, ''k'')]"
  by (simp add: move_there_and_back_def service_move_node_def get_node_def handler_get_node_def
        check_permissions_def move_node_def node_get_next_nodes_def get_next_nodes_def get_nodes_def
        update_previous_node_def bulk_update_def bulk_update_row_def save_position_def
        or_empty_def truthy_def link_def Let_def example_defs)

text \<open>
  C5, amended. Moving \<open>x\<close> after another node \<open>y\<close> and back after its original previous
  node \<open>p\<close> on its original branch restores every row's
  \<open>(previous_node_id, previous_node_output)\<close>, provided that: ids are the primary key; \<open>x\<close>,
  \<open>y\<close>, \<open>p\<close> are three different nodes of one workflow and \<open>x\<close> is movable; \<open>x\<close> is the only
  node on its branch of \<open>p\<close>; every successor of \<open>x\<close> is on its default branch; and either
  the destination key is given or every successor of \<open>y\<close> is on its default branch.
\<close>

theorem move_round_trip:
  assumes d: "distinct (map node_id s)"
    and mem: "x \<in> set s" "y \<in> set s" "p \<in> set s"
    and xp: "previous_node_id x = Some (node_id p)"
    and ne: "node_id y \<noteq> node_id x" "node_id y \<noteq> node_id p" "node_id p \<noteq> node_id x"
    and wf: "workflow_id y = workflow_id x" "workflow_id p = workflow_id x"
    and ok: "usr ReadAutomationNode" "usr UpdateAutomationNode" "\<not> is_fixed (ntype x)"
    and slot: "\<forall>m\<in>set s. previous_node_id m = Some (node_id p)
                 \<and> previous_node_output m = previous_node_output x
                 \<and> workflow_id m = workflow_id x \<longrightarrow> node_id m = node_id x"
    and dflt: "\<forall>m\<in>set s. previous_node_id m = Some (node_id x) \<and> workflow_id m = workflow_id x
                 \<longrightarrow> previous_node_output m = ''''"
    and dest: "k1 = None \<longrightarrow> (\<forall>m\<in>set s. previous_node_id m = Some (node_id y)
                 \<and> workflow_id m = workflow_id y \<longrightarrow> previous_node_output m = '''')"
  shows "\<exists>s2. move_there_and_back env usr s (node_id x) (node_id y) k1 o1
                 (node_id p) (Some (previous_node_output x)) o2 = Inr s2
              \<and> map link s2 = map link s"
proof -
  let ?ord1 = "move_order env s x y o1"
  let ?f = "move_row x y k1 ?ord1"
  let ?s1 = "map ?f s"
  have first: "service_move_node env usr s (node_id x) (node_id y) k1 o1
                 = Inr (move_node env s x y k1 o1)"
    by (rule service_move_node_ok[OF d mem(1,2) ok])
  have s1: "fst (move_node env s x y k1 o1) = ?s1"
    by (rule move_node_rows[OF d])
  have d1: "distinct (map node_id ?s1)"
    using d by (simp add: o_def)
  have m1: "?f x \<in> set ?s1" "?f p \<in> set ?s1"
    using mem by simp_all
  have fixed1: "\<not> is_fixed (ntype (?f x))" using ok(3) by simp
  have second: "service_move_node env usr ?s1 (node_id x) (node_id p)
                  (Some (previous_node_output x)) o2
                = Inr (move_node env ?s1 (?f x) (?f p) (Some (previous_node_output x)) o2)"
    using service_move_node_ok[OF d1 m1 ok(1,2) fixed1, of env "Some (previous_node_output x)" o2]
    by simp
  let ?ord2 = "move_order env ?s1 (?f x) (?f p) o2"
  let ?g = "move_row (?f x) (?f p) (Some (previous_node_output x)) ?ord2"
  have s2: "fst (move_node env ?s1 (?f x) (?f p) (Some (previous_node_output x)) o2) = map ?g ?s1"
    by (rule move_node_rows[OF d1])
  have rows: "map (link \<circ> (?g \<circ> ?f)) s = map link s"
  proof (rule map_cong[OF refl])
    fix m assume m: "m \<in> set s"
    have same: "node_id m = node_id x \<longrightarrow> m = x"
      using d m mem(1) by (meson distinct_map inj_onD)
    have a: "previous_node_id m = Some (node_id p)
               \<and> previous_node_output m = previous_node_output x
               \<and> workflow_id m = workflow_id x \<longrightarrow> node_id m = node_id x"
      using slot m by blast
    have b: "previous_node_id m = Some (node_id x) \<and> workflow_id m = workflow_id x
               \<longrightarrow> previous_node_output m = []"
      using dflt m by blast
    have c: "previous_node_id m = Some (node_id y) \<and> workflow_id m = workflow_id y \<and> k1 = None
               \<longrightarrow> previous_node_output m = []"
      using dest m by blast
    show "(link \<circ> (?g \<circ> ?f)) m = link m"
      unfolding o_def by (rule link_move_round_trip_row[OF xp ne wf a same b c refl refl])
  qed
  have p1: "move_node env s x y k1 o1 = (?s1, snd (move_node env s x y k1 o1))"
    using s1 by (metis prod.collapse)
  have p2: "move_node env ?s1 (?f x) (?f p) (Some (previous_node_output x)) o2
              = (map ?g ?s1, snd (move_node env ?s1 (?f x) (?f p) (Some (previous_node_output x)) o2))"
    using s2 by (metis prod.collapse)
  have "move_there_and_back env usr s (node_id x) (node_id y) k1 o1
          (node_id p) (Some (previous_node_output x)) o2 = Inr (map ?g ?s1)"
    unfolding move_there_and_back_def first
    by (subst p1) (simp add: second, subst p2, simp)
  moreover have "map link (map ?g ?s1) = map link s"
    using rows by (simp add: o_def)
  ultimately show ?thesis by blast
qed

theorem move_round_trip_witness:
  "\<exists>s2. move_there_and_back example_helpers anyone
        [example_node 1 None '''', example_node 2 (Some 1) '''', example_node 3 (Some 2) '''',
         example_node 4 (Some 3) '''', example_node 5 (Some 4) ''k'']
        2 4 (Some ''k'') None 1 (Some '''') None = Inr s2
      \<and> map link s2 = map link
        [example_node 1 None '''', example_node 2 (Some 1) '''', example_node 3 (Some 2) '''',
         example_node 4 (Some 3) '''', example_node 5 (Some 4) ''k'']"
  using move_round_trip
    [where s = "[example_node 1 None '''', example_node 2 (Some 1) '''', example_node 3 (Some 2) '''',
         example_node 4 (Some 3) '''', example_node 5 (Some 4) ''k'']"
       and x = "example_node 2 (Some 1) ''''" and y = "example_node 4 (Some 3) ''''"
       and p = "example_node 1 None ''''" and usr = anyone and ?k1.0 = "Some ''k''"
       and env = example_helpers and ?o1.0 = None and ?o2.0 = None]
  by (simp add: example_defs)

section \<open>Duplicate\<close>





section \<open>Dispatch: simulate until a node\<close>

text \<open>
  C7. In a workflow shaped trigger, then A, then B, with \<open>simulate_until_node\<close> set to A,
  where the business logic of the trigger and of A succeed and A sits on the branch the
  trigger's result selects: dispatching from the trigger returns (two units of fuel are
  enough) without an exception; the business logic invoked is that of the trigger and of
  A, in this order, and of no other node, so B is never dispatched; both results are
  recorded and the sample data of A is refreshed.
\<close>

theorem simulate_until_halts:
  assumes shape: "previous_node_id t = None" "previous_node_id a = Some (node_id t)"
      "previous_node_id b = Some (node_id a)"
      "workflow_id a = workflow_id t" "workflow_id b = workflow_id t"
    and ids: "node_id t \<noteq> node_id a" "node_id b \<noteq> node_id t" "node_id b \<noteq> node_id a"
    and until: "simulate_until_node ctx = Some a"
    and st: "svc t (results ctx) = Inr rt" "output_uid rt = previous_node_output a"
    and sa: "svc a (results ctx @ [(node_id t, rt)]) = Inr ra"
  shows "dispatch_node (Suc (Suc fuel)) svc [t, a, b] t ctx
           = Some (ctx\<lparr>results := results ctx @ [(node_id t, rt), (node_id a, ra)],
                        dispatched := dispatched ctx @ [node_id t, node_id a],
                        refreshed := refreshed ctx @ [node_id a]\<rparr>, None)"
proof -
  have nxt: "node_get_next_nodes [t, a, b] t (Some (output_uid rt)) = [a]"
    using shape ids st(2)
    by (auto simp: node_get_next_nodes_def get_next_nodes_def get_nodes_def Let_def)
  let ?ctx1 = "after_dispatch (ctx\<lparr>dispatched := dispatched ctx @ [node_id t]\<rparr>) t rt"
  have inner: "dispatch_node (Suc fuel) svc [t, a, b] a ?ctx1
                 = Some (ctx\<lparr>results := results ctx @ [(node_id t, rt), (node_id a, ra)],
                        dispatched := dispatched ctx @ [node_id t, node_id a],
                        refreshed := refreshed ctx @ [node_id a]\<rparr>, None)"
    using until sa by (simp add: after_dispatch_def Let_def)
  have not_t: "\<not> (case simulate_until_node ?ctx1 of None \<Rightarrow> False
                    | Some until_node \<Rightarrow> node_id until_node = node_id t)"
    using until ids(1) by (simp add: after_dispatch_def)
  have "dispatch_node (Suc (Suc fuel)) svc [t, a, b] t ctx
          = dispatch_next_nodes (Suc fuel) svc [t, a, b] [a] ?ctx1"
    by (subst dispatch_node.simps(2))
       (use st(1) not_t nxt in \<open>simp add: Let_def del: dispatch_node.simps dispatch_next_nodes.simps\<close>)
  also have "\<dots> = Some (ctx\<lparr>results := results ctx @ [(node_id t, rt), (node_id a, ra)],
                        dispatched := dispatched ctx @ [node_id t, node_id a],
                        refreshed := refreshed ctx @ [node_id a]\<rparr>, None)"
    unfolding dispatch_next_nodes.simps inner by simp
  finally show ?thesis .
qed

theorem simulate_until_halts_witness:
  "dispatch_node (Suc (Suc 0))
     (\<lambda>nd rs. Inr \<lparr>output_uid = '''', result_data = ''ok''\<rparr>)
     [example_node 1 None '''', example_node 2 (Some 1) '''', example_node 3 (Some 2) '''']
     (example_node 1 None '''')
     \<lparr>simulate_until_node = Some (example_node 2 (Some 1) ''''), results = [],
      dispatched = [], refreshed = []\<rparr>
   = Some (\<lparr>simulate_until_node = Some (example_node 2 (Some 1) ''''),
            results = [(1, \<lparr>output_uid = '''', result_data = ''ok''\<rparr>),
                       (2, \<lparr>output_uid = '''', result_data = ''ok''\<rparr>)],
            dispatched = [1, 2], refreshed = [2]\<rparr>, None)"
  using simulate_until_halts
    [where t = "example_node 1 None ''''" and a = "example_node 2 (Some 1) ''''"
       and b = "example_node 3 (Some 2) ''''"
       and svc = "\<lambda>nd rs. Inr \<lparr>output_uid = '''', result_data = ''ok''\<rparr>"
       and ctx = "\<lparr>simulate_until_node = Some (example_node 2 (Some 1) ''''), results = [],
                   dispatched = [], refreshed = []\<rparr>"
       and rt = "\<lparr>output_uid = '''', result_data = ''ok''\<rparr>"
       and ra = "\<lparr>output_uid = '''', result_data = ''ok''\<rparr>" and fuel = 0]
  by (simp add: example_node_def)

section \<open>Run controller: facts about the checks and the run\<close>

lemma histories_reset [simp]:
  "histories (reset_workflow_temporary_states db w) = histories db"
  by (simp add: reset_workflow_temporary_states_def)

lemma rate_limit_cache_reset [simp]:
  "rate_limit_cache (reset_workflow_temporary_states db w) = rate_limit_cache db"
  by (simp add: reset_workflow_temporary_states_def)

lemma order_by_reset [simp]:
  "order_by_started_on_desc (reset_workflow_temporary_states db w) = order_by_started_on_desc db"
  by (simp add: reset_workflow_temporary_states_def)

lemma states_reset [simp]:
  "states (reset_workflow_temporary_states db w) = states db"
  by (simp add: reset_workflow_temporary_states_def states_def o_def)

lemma history_latest_first_cong:
  "histories db = histories db' \<Longrightarrow> order_by_started_on_desc db = order_by_started_on_desc db'
     \<Longrightarrow> history_latest_first db i = history_latest_first db' i"
  by (simp add: history_latest_first_def)

lemma check_too_many_errors_cong:
  "histories db = histories db' \<Longrightarrow> order_by_started_on_desc db = order_by_started_on_desc db'
     \<Longrightarrow> check_too_many_errors cfg db w = check_too_many_errors cfg db' w"
  by (simp add: check_too_many_errors_def history_latest_first_def)

text \<open>What a database may answer to \<open>order_by("-started_on")\<close>.\<close>

lemma latest_first_rev_sort: "latest_first rows (rev (sort_key started_on rows))"
  by (simp add: latest_first_def rev_map[symmetric])

lemma latest_first_opened:
  assumes "latest_first (rows @ [h]) xs"
    and "\<forall>old\<in>set rows. started_on old < started_on h"
  shows "\<exists>older. xs = h # older \<and> latest_first rows older"
proof (cases xs)
  case Nil
  with assms(1) show ?thesis by (simp add: latest_first_def)
next
  case (Cons y ys)
  from assms(1) have m: "mset (y # ys) = mset (rows @ [h])"
    and srt: "sorted (rev (map started_on (y # ys)))"
    by (simp_all add: latest_first_def Cons)
  from srt have le: "\<forall>z\<in>set ys. started_on z \<le> started_on y"
    and srt': "sorted (rev (map started_on ys))"
    by (auto simp: sorted_append)
  from m have sets: "set (y # ys) = set (rows @ [h])" by (rule mset_eq_setD)
  have "y = h"
  proof (rule ccontr)
    assume "y \<noteq> h"
    with sets have "y \<in> set rows" and "h \<in> set ys" by auto
    with assms(2) le show False by fastforce
  qed
  with m have "mset ys = mset rows" by simp
  with srt' \<open>y = h\<close> Cons show ?thesis by (simp add: latest_first_def)
qed

text \<open>The circuit breaker in the words of the claim.\<close>

lemma check_too_many_errors_statuses:
  "check_too_many_errors cfg db w =
     (let n = AUTOMATION_WORKFLOW_MAX_CONSECUTIVE_ERRORS cfg;
          xs = without_leading_started (take (n + 1) (latest_statuses db w))
      in if n \<le> length xs \<and> list_all (\<lambda>st. st = ERROR) xs
         then Inl AutomationWorkflowTooManyErrors else Inr ())"
  by (simp add: check_too_many_errors_def latest_statuses_def without_leading_started_def
        Let_def take_map not_less)

lemma take_without_leading_started:
  "take n (without_leading_started xs) = take n (without_leading_started (take (Suc n) xs))"
  by (cases xs; cases n) (simp_all add: without_leading_started_def min_def)

lemma breaker_only_if:
  assumes "check_too_many_errors cfg db w = Inl e"
  shows "e = AutomationWorkflowTooManyErrors
         \<and> n_latest_all_error (AUTOMATION_WORKFLOW_MAX_CONSECUTIVE_ERRORS cfg)
              (without_leading_started (latest_statuses db w))"
proof -
  let ?n = "AUTOMATION_WORKFLOW_MAX_CONSECUTIVE_ERRORS cfg"
  let ?xs = "without_leading_started (take (?n + 1) (latest_statuses db w))"
  from assms have e: "e = AutomationWorkflowTooManyErrors"
    and len: "?n \<le> length ?xs" and all: "list_all (\<lambda>st. st = ERROR) ?xs"
    by (auto simp: check_too_many_errors_statuses Let_def split: if_splits)
  have t: "take ?n (without_leading_started (latest_statuses db w)) = take ?n ?xs"
    using take_without_leading_started[of ?n "latest_statuses db w"] by simp
  have "?n \<le> length (without_leading_started (latest_statuses db w))"
    using len t by (metis length_take min.absorb2 min.cobounded1 nat_le_linear take_all)
  moreover have "list_all (\<lambda>st. st = ERROR) (take ?n ?xs)"
    using all by (auto simp: list_all_iff dest: in_set_takeD)
  ultimately show ?thesis using e t by (simp add: n_latest_all_error_def)
qed

lemma breaker_iff_started:
  assumes "latest_statuses db w = STARTED # older"
  shows "check_too_many_errors cfg db w = Inl AutomationWorkflowTooManyErrors
         \<longleftrightarrow> n_latest_all_error (AUTOMATION_WORKFLOW_MAX_CONSECUTIVE_ERRORS cfg) older"
proof -
  let ?n = "AUTOMATION_WORKFLOW_MAX_CONSECUTIVE_ERRORS cfg"
  have xs: "without_leading_started (take (?n + 1) (latest_statuses db w)) = take ?n older"
    by (simp add: assms without_leading_started_def)
  show ?thesis
    unfolding check_too_many_errors_statuses Let_def xs n_latest_all_error_def
    by auto
qed

lemma dispatch_never_breaker:
  "dispatch_node fuel svc s nd ctx = Some (c, Some e) \<longrightarrow> e \<noteq> AutomationWorkflowTooManyErrors"
  and "dispatch_next_nodes fuel svc s nds ctx = Some (c, Some e)
         \<longrightarrow> e \<noteq> AutomationWorkflowTooManyErrors"
proof (induction fuel svc s nd ctx and fuel svc s nds ctx arbitrary: c e and c e
       rule: dispatch_node_dispatch_next_nodes.induct)
  case (1 svc s nd ctx)
  show ?case by simp
next
  case (2 fuel svc s nd ctx)
  show ?case
  proof (cases "svc nd (results (ctx\<lparr>dispatched := dispatched ctx @ [node_id nd]\<rparr>))")
    case (Inl x)
    then show ?thesis by (cases x) (auto simp: translate_def Let_def)
  next
    case (Inr r)
    then show ?thesis
      using "2.IH"[OF refl Inr refl, of c e]
      by (auto simp: Let_def split: if_splits)
  qed
next
  case (3 fuel svc s ctx)
  show ?case by simp
next
  case (4 fuel svc s next_node rest ctx)
  show ?case
  proof (cases "dispatch_node fuel svc s next_node ctx")
    case None
    then show ?thesis by simp
  next
    case (Some res)
    obtain c1 eo where res: "res = (c1, eo)" by (cases res)
    show ?thesis
    proof (cases eo)
      case None
      then show ?thesis
        using Some res "4.IH"(2)[OF Some[unfolded res] refl None, of c e]
        by simp
    next
      case (Some e1)
      then show ?thesis
        using \<open>dispatch_node fuel svc s next_node ctx = Some res\<close> res "4.IH"(1)[of c1 e1]
        by auto
    qed
  qed
qed

lemma dispatch_node_not_breaker:
  "dispatch_node fuel svc s nd ctx = Some (c, Some e) \<Longrightarrow> e \<noteq> AutomationWorkflowTooManyErrors"
  using dispatch_never_breaker(1)[of fuel svc s nd ctx c e] by simp

lemma check_too_many_errors_raises:
  "check_too_many_errors cfg db w = Inl e \<Longrightarrow> e = AutomationWorkflowTooManyErrors"
  by (auto simp: check_too_many_errors_def Let_def split: if_splits)

lemma check_is_rate_limited_raises:
  "check_is_rate_limited cfg now i cache = Inl e \<Longrightarrow> e = AutomationWorkflowRateLimited"
  by (auto simp: check_is_rate_limited_def check_is_rate_limited_value_def Let_def
           split: if_splits sum.splits)

lemma check_is_rate_limited_other_keys:
  "check_is_rate_limited cfg now i cache = Inr cache' \<Longrightarrow> k \<noteq> i \<Longrightarrow> cache' k = cache k"
  by (auto simp: check_is_rate_limited_def Let_def split: sum.splits)

lemma check_too_many_errors_reset [simp]:
  "check_too_many_errors cfg (reset_workflow_temporary_states db w) w'
     = check_too_many_errors cfg db w'"
  by (rule check_too_many_errors_cong) simp_all

lemma before_run_histories [simp]:
  "histories (fst (before_run cfg now db w)) = histories db"
  by (simp add: before_run_def Let_def split: sum.splits)

lemma before_run_states [simp]:
  "states (fst (before_run cfg now db w)) = states db"
proof -
  have "\<And>d c. states (d\<lparr>rate_limit_cache := c\<rparr>) = states d" by (simp add: states_def)
  then show ?thesis by (simp add: before_run_def Let_def split: sum.splits)
qed

lemma before_run_workflows:
  "workflows (fst (before_run cfg now db w)) = workflows (reset_workflow_temporary_states db w)"
  by (simp add: before_run_def Let_def split: sum.splits)

lemma before_run_other_keys:
  "k \<noteq> wf_id w \<Longrightarrow> rate_limit_cache (fst (before_run cfg now db w)) k = rate_limit_cache db k"
  by (auto simp: before_run_def Let_def check_is_rate_limited_other_keys split: sum.splits)

lemma before_run_breaker:
  "snd (before_run cfg now db w) = Some AutomationWorkflowTooManyErrors
     \<longleftrightarrow> check_too_many_errors cfg db w = Inl AutomationWorkflowTooManyErrors"
  by (auto simp: before_run_def Let_def split: sum.splits
           dest: check_too_many_errors_raises check_is_rate_limited_raises)

lemma try_block_fst:
  "fst (try_block cfg fuel svc s db w orig ctx now) = fst (before_run cfg now db orig)"
  by (simp add: try_block_def split: prod.splits option.splits)

lemma try_block_breaker:
  "snd (try_block cfg fuel svc s db w orig ctx now) = Some AutomationWorkflowTooManyErrors
     \<longleftrightarrow> check_too_many_errors cfg db orig = Inl AutomationWorkflowTooManyErrors"
proof -
  have a: "snd (before_run cfg now db orig) = None \<Longrightarrow>
           check_too_many_errors cfg db orig \<noteq> Inl AutomationWorkflowTooManyErrors"
    using before_run_breaker[of cfg now db orig] by simp
  show ?thesis
    using before_run_breaker[of cfg now db orig] a
    by (auto simp: try_block_def split: prod.splits option.splits
             dest: dispatch_node_not_breaker)
qed

lemma histories_disable [simp]: "histories (disable_workflow db w) = histories db"
  by (simp add: disable_workflow_def Let_def)

lemma rate_limit_cache_disable [simp]:
  "rate_limit_cache (disable_workflow db w) = rate_limit_cache db"
  by (simp add: disable_workflow_def Let_def)

lemma histories_handle_outcome [simp]:
  "histories (fst (handle_outcome db w raised)) = histories db"
  by (simp add: handle_outcome_def split: option.splits)

lemma rate_limit_cache_handle_outcome [simp]:
  "rate_limit_cache (fst (handle_outcome db w raised)) = rate_limit_cache db"
  by (simp add: handle_outcome_def split: option.splits)

lemma snd_handle_outcome:
  "snd (handle_outcome db w raised) =
     (case raised of None \<Rightarrow> Some SUCCESS
      | Some e \<Rightarrow> if e = AutomationWorkflowTooManyErrors then Some DISABLED
                  else if e = KeyboardInterruptOrSystemExit then None else Some ERROR)"
  by (simp add: handle_outcome_def split: option.splits)

lemma handle_outcome_uncaught:
  "snd (handle_outcome db w raised) = None \<Longrightarrow> fst (handle_outcome db w raised) = db"
  by (simp add: handle_outcome_def split: option.splits if_splits)

lemma histories_try_block [simp]:
  "histories (fst (try_block cfg fuel svc s db w orig ctx now)) = histories db"
  by (simp add: try_block_fst)

text \<open>
  A run that is not a simulation, in one equation: the state is the one the \<open>except\<close>
  clauses leave, with one history entry more than before; when a clause was entered the
  entry is closed and nothing escapes, otherwise it is as it was opened and
  \<open>UnboundLocalError\<close> escapes.
\<close>

lemma start_workflow_recorded:
  fixes cfg fuel svc s db w orig t0 t1 t2
  defines "h0 \<equiv> \<lparr>h_workflow_id = wf_id orig, started_on = t0, completed_on = None,
                   is_test_run = (wf_id orig = wf_id w), status = STARTED, message = None\<rparr>"
  defines "tb \<equiv> try_block cfg fuel svc s (db\<lparr>histories := histories db @ [h0]\<rparr>) w orig
                   \<lparr>simulate_until_node = None, results = [], dispatched = [], refreshed = []\<rparr> t1"
  assumes "get_original_workflow db w = Some orig"
  shows "start_workflow cfg fuel svc s db w None t0 t1 t2
           = (case snd (handle_outcome (fst tb) w (snd tb)) of
                Some st \<Rightarrow>
                  ((fst (handle_outcome (fst tb) w (snd tb)))
                     \<lparr>histories := histories db @
                        [h0\<lparr>completed_on := Some t2, message := snd tb, status := st\<rparr>]\<rparr>, None)
              | None \<Rightarrow>
                  ((fst (handle_outcome (fst tb) w (snd tb)))
                     \<lparr>histories := histories db @ [h0]\<rparr>, Some UnboundLocalError))"
proof -
  have c: "create_workflow_history db orig t0 (wf_id orig = wf_id w)
             = (db\<lparr>histories := histories db @ [h0]\<rparr>, h0)"
    by (simp add: create_workflow_history_def h0_def Let_def)
  have upd: "\<And>st. (histories (fst (handle_outcome (fst tb) w (snd tb))))[length (histories db) :=
               h0\<lparr>completed_on := Some t2, message := snd tb, status := st\<rparr>]
             = histories db @ [h0\<lparr>completed_on := Some t2, message := snd tb, status := st\<rparr>]"
    by (simp add: tb_def)
  have same: "(fst (handle_outcome (fst tb) w (snd tb)))\<lparr>histories := histories db @ [h0]\<rparr>
                = fst (handle_outcome (fst tb) w (snd tb))"
    by (simp add: tb_def)
  show ?thesis
    unfolding start_workflow_def assms(3) option.case Let_def c same
    using upd by (simp add: case_prod_beta tb_def split: option.splits)
qed

lemma start_workflow_simulated:
  assumes "get_original_workflow db w = Some orig"
  shows "start_workflow cfg fuel svc s db w (Some n) t0 t1 t2
           = (fst (handle_outcome
                    (fst (try_block cfg fuel svc s db w orig
                       \<lparr>simulate_until_node = Some n, results = [], dispatched = [],
                        refreshed = []\<rparr> t1)) w
                    (snd (try_block cfg fuel svc s db w orig
                       \<lparr>simulate_until_node = Some n, results = [], dispatched = [],
                        refreshed = []\<rparr> t1))),
              case snd (handle_outcome
                    (fst (try_block cfg fuel svc s db w orig
                       \<lparr>simulate_until_node = Some n, results = [], dispatched = [],
                        refreshed = []\<rparr> t1)) w
                    (snd (try_block cfg fuel svc s db w orig
                       \<lparr>simulate_until_node = Some n, results = [], dispatched = [],
                        refreshed = []\<rparr> t1))) of
                Some st \<Rightarrow> None
              | None \<Rightarrow> snd (try_block cfg fuel svc s db w orig
                       \<lparr>simulate_until_node = Some n, results = [], dispatched = [],
                        refreshed = []\<rparr> t1))"
  unfolding start_workflow_def assms option.case Let_def
  by (simp add: case_prod_beta split: option.splits)

section \<open>Lemmas on the circuit breaker in a run\<close>

lemma find_wf_id_Some: "find (\<lambda>r. wf_id r = i) xs = Some r \<Longrightarrow> wf_id r = i"
  by (induction xs) (auto split: if_splits)

lemma find_wf_id_same_ids:
  assumes "map wf_id ys = map wf_id xs" and "find (\<lambda>r. wf_id r = i) xs = Some r"
  shows "\<exists>r'. find (\<lambda>r. wf_id r = i) ys = Some r'"
proof -
  have "i \<in> set (map wf_id xs)"
    using assms(2) by (auto simp: find_Some_iff)
  then have "i \<in> set (map wf_id ys)" using assms(1) by simp
  then have "find (\<lambda>r. wf_id r = i) ys \<noteq> None"
    by (auto simp: find_None_iff)
  then show ?thesis by auto
qed

lemma get_original_workflow_id:
  "get_original_workflow db w = Some orig \<Longrightarrow>
     wf_id orig = (case published_from_id w of
                     Some i \<Rightarrow> if i \<noteq> 0 then i else wf_id w | None \<Rightarrow> wf_id w)"
  by (auto simp: get_original_workflow_def split: option.splits if_splits dest: find_wf_id_Some)

lemma get_original_workflow_same_ids:
  assumes "get_original_workflow db w = Some orig"
    and "map wf_id (workflows db') = map wf_id (workflows db)"
  shows "\<exists>o'. get_original_workflow db' w = Some o' \<and> wf_id o' = wf_id orig"
proof -
  have "\<exists>o'. get_original_workflow db' w = Some o'"
    using assms find_wf_id_same_ids[OF assms(2)]
    by (auto simp: get_original_workflow_def split: option.splits if_splits)
  then obtain o' where o': "get_original_workflow db' w = Some o'" by blast
  then have "wf_id o' = wf_id orig"
    using get_original_workflow_id[OF o'] get_original_workflow_id[OF assms(1)] by simp
  with o' show ?thesis by blast
qed

lemma states_ids: "map fst (states db) = map wf_id (workflows db)"
  by (simp add: states_def o_def)

lemma states_disable:
  assumes "get_original_workflow db w = Some orig"
  shows "states (disable_workflow db w)
           = map (\<lambda>(i, st). (i, if i = wf_id w \<or> i = wf_id orig then Disabled else st)) (states db)"
  using assms by (simp add: disable_workflow_def states_def Let_def o_def)

lemma latest_statuses_opened:
  assumes "h_workflow_id h = wf_id w" "status h = STARTED"
    and "\<forall>rows. latest_first rows (order_by_started_on_desc db rows)"
    and "\<forall>old\<in>set (histories db). h_workflow_id old = wf_id w \<longrightarrow> started_on old < started_on h"
  shows "\<exists>older. latest_first (filter (\<lambda>r. h_workflow_id r = wf_id w) (histories db)) older
           \<and> latest_statuses (db\<lparr>histories := histories db @ [h]\<rparr>) w
               = STARTED # map status older"
proof -
  let ?rows = "filter (\<lambda>r. h_workflow_id r = wf_id w) (histories db)"
  have "latest_first (?rows @ [h]) (order_by_started_on_desc db (?rows @ [h]))"
    using assms(3) by blast
  moreover have "\<forall>old\<in>set ?rows. started_on old < started_on h"
    using assms(4) by simp
  ultimately obtain older
    where "order_by_started_on_desc db (?rows @ [h]) = h # older" "latest_first ?rows older"
    using latest_first_opened by blast
  then show ?thesis
    using assms(1,2) by (intro exI[of _ older]) (simp add: latest_statuses_def history_latest_first_def)
qed

lemma start_workflow_breaker:
  fixes cfg db x orig t0
  defines "db1 \<equiv> fst (create_workflow_history db orig t0 (wf_id orig = wf_id x))"
  defines "denied \<equiv> n_latest_all_error (AUTOMATION_WORKFLOW_MAX_CONSECUTIVE_ERRORS cfg)
                       (without_leading_started (latest_statuses db1 orig))"
  assumes orig: "get_original_workflow db x = Some orig"
    and valid: "\<forall>rows. latest_first rows (order_by_started_on_desc db rows)"
    and clock: "\<forall>h\<in>set (histories db). h_workflow_id h = wf_id orig \<longrightarrow> started_on h < t0"
  shows "(\<exists>older. latest_first (filter (\<lambda>r. h_workflow_id r = wf_id orig) (histories db)) older
            \<and> latest_statuses db1 orig = STARTED # map status older)
       \<and> (\<exists>db' r. start_workflow cfg fuel svc s db x None t0 t1 t2 = (db', r)
            \<and> (denied \<longrightarrow>
                  r = None \<and> status (last (histories db')) = DISABLED
                \<and> states db' = map (\<lambda>(i, st). (i, if i = wf_id x \<or> i = wf_id orig
                                                     then Disabled else st)) (states db))
            \<and> (\<not> denied \<longrightarrow>
                  status (last (histories db')) \<noteq> DISABLED \<and> states db' = states db))"
proof -
  define opened where "opened = \<lparr>h_workflow_id = wf_id orig, started_on = t0, completed_on = None,
                   is_test_run = (wf_id orig = wf_id x), status = STARTED, message = None\<rparr>"
  define tb where "tb = try_block cfg fuel svc s (db\<lparr>histories := histories db @ [opened]\<rparr>) x orig
                   \<lparr>simulate_until_node = None, results = [], dispatched = [], refreshed = []\<rparr> t1"
  define ho where "ho = handle_outcome (fst tb) x (snd tb)"
  have db1: "db1 = db\<lparr>histories := histories db @ [opened]\<rparr>"
    by (simp add: db1_def create_workflow_history_def Let_def opened_def)
  have run: "start_workflow cfg fuel svc s db x None t0 t1 t2
           = (case snd ho of
                Some st \<Rightarrow>
                  ((fst ho)\<lparr>histories := histories db @
                        [opened\<lparr>completed_on := Some t2, message := snd tb, status := st\<rparr>]\<rparr>, None)
              | None \<Rightarrow> ((fst ho)\<lparr>histories := histories db @ [opened]\<rparr>, Some UnboundLocalError))"
    unfolding ho_def tb_def opened_def by (rule start_workflow_recorded[OF orig])
  obtain older
    where older: "latest_first (filter (\<lambda>r. h_workflow_id r = wf_id orig) (histories db)) older"
      and ls: "latest_statuses db1 orig = STARTED # map status older"
    unfolding db1
    using latest_statuses_opened[of opened orig db] valid clock
    by (auto simp: opened_def)
  have wls: "without_leading_started (latest_statuses db1 orig) = map status older"
    by (simp add: ls without_leading_started_def)
  have chk: "check_too_many_errors cfg db1 orig = Inl AutomationWorkflowTooManyErrors \<longleftrightarrow> denied"
    unfolding denied_def wls by (rule breaker_iff_started[OF ls])
  have raised: "snd tb = Some AutomationWorkflowTooManyErrors \<longleftrightarrow> denied"
    unfolding tb_def db1[symmetric] try_block_breaker chk ..
  have "states (fst tb) = states (db\<lparr>histories := histories db @ [opened]\<rparr>)"
    by (simp add: tb_def try_block_fst)
  then have st_tb: "states (fst tb) = states db" by (simp add: states_def)
  have ids: "map wf_id (workflows (fst tb)) = map wf_id (workflows db)"
    using st_tb states_ids[of "fst tb"] states_ids[of db] by simp
  obtain o' where o': "get_original_workflow (fst tb) x = Some o'" "wf_id o' = wf_id orig"
    using get_original_workflow_same_ids[OF orig ids] by blast
  have yes: "denied \<Longrightarrow> snd ho = Some DISABLED
               \<and> states (fst ho) = map (\<lambda>(i, st). (i, if i = wf_id x \<or> i = wf_id orig
                                                   then Disabled else st)) (states db)"
    using raised states_disable[OF o'(1)] o'(2) st_tb
    by (simp add: ho_def handle_outcome_def)
  have no: "\<not> denied \<Longrightarrow> snd ho \<noteq> Some DISABLED \<and> states (fst ho) = states db"
    using raised st_tb
    by (auto simp: ho_def handle_outcome_def split: option.splits)
  have A: "\<exists>older. latest_first (filter (\<lambda>r. h_workflow_id r = wf_id orig) (histories db)) older
            \<and> latest_statuses db1 orig = STARTED # map status older"
    using older ls by blast
  have B: "\<exists>db' r. start_workflow cfg fuel svc s db x None t0 t1 t2 = (db', r)
            \<and> (denied \<longrightarrow>
                  r = None \<and> status (last (histories db')) = DISABLED
                \<and> states db' = map (\<lambda>(i, st). (i, if i = wf_id x \<or> i = wf_id orig
                                                     then Disabled else st)) (states db))
            \<and> (\<not> denied \<longrightarrow>
                  status (last (histories db')) \<noteq> DISABLED \<and> states db' = states db)"
  proof (cases "snd ho")
    case None
    then have nd: "\<not> denied" using yes by auto
    show ?thesis
      unfolding run None option.case
      using nd no
      by (intro exI[of _ "(fst ho)\<lparr>histories := histories db @ [opened]\<rparr>"]
                exI[of _ "Some UnboundLocalError"])
         (simp add: states_def opened_def)
  next
    case (Some st)
    show ?thesis
      unfolding run Some option.case
      using yes no Some
      by (intro exI[of _ "(fst ho)\<lparr>histories := histories db @
                        [opened\<lparr>completed_on := Some t2, message := snd tb, status := st\<rparr>]\<rparr>"]
                exI[of _ "None"])
         (auto simp: states_def)
  qed
  show ?thesis using A B by (rule conjI)
qed

lemma get_original_workflow_row:
  assumes "get_original_workflow db w = Some orig"
  shows "case published_from_id w of
           Some i \<Rightarrow> if i \<noteq> 0 then wf_id orig = i \<and> orig \<in> set (workflows db) else orig = w
         | None \<Rightarrow> orig = w"
  using assms
  by (auto simp: get_original_workflow_def find_Some_iff split: option.splits if_splits)

section \<open>The circuit breaker\<close>

text \<open>
  C1, as the claim states it, fails in two places. With a threshold of three and the
  history Success, Error, Error, Error (oldest first, all at different times) and no entry
  in progress, the three most recent entries are all Error, yet the check admits the run:
  it fetches four entries and, having no Started entry to drop, asks all four to be Error.
  And a test run of a draft that the breaker refuses disables that draft only: the
  workflow published from it stays live, since \<open>disable_workflow\<close> disables the executing
  workflow and its original.
\<close>

theorem circuit_breaker_counterexample:
  "check_too_many_errors example_settings
      (example_engine [example_workflow 1 None Draft]
         [example_history 1 10 SUCCESS, example_history 1 20 ERROR,
          example_history 1 30 ERROR, example_history 1 40 ERROR])
      (example_workflow 1 None Draft) = Inr ()
   \<and> without_leading_started (latest_statuses
        (example_engine [example_workflow 1 None Draft]
           [example_history 1 10 SUCCESS, example_history 1 20 ERROR,
            example_history 1 30 ERROR, example_history 1 40 ERROR])
        (example_workflow 1 None Draft)) = [ERROR, ERROR, ERROR, SUCCESS]
   \<and> n_latest_all_error (AUTOMATION_WORKFLOW_MAX_CONSECUTIVE_ERRORS example_settings)
        [ERROR, ERROR, ERROR, SUCCESS]
   \<and> map_prod states id
        (start_workflow example_settings 5 example_service [example_node 1 None '''']
           (example_engine [example_workflow 1 None Draft, example_workflow 2 (Some 1) Live]
              [example_history 1 20 ERROR, example_history 1 30 ERROR,
               example_history 1 40 ERROR])
           (example_workflow 1 None Draft) None 50 50 51)
       = ([(1, Disabled), (2, Live)], None)"
  by (simp add: check_too_many_errors_def latest_statuses_def history_latest_first_def
        without_leading_started_def start_workflow_def try_block_def handle_outcome_def
        before_run_def reset_workflow_temporary_states_def disable_workflow_def
        get_original_workflow_def create_workflow_history_def states_def
        n_latest_all_error_def Let_def run_example_defs)

text \<open>
  C1, amended. The check refuses with \<open>AutomationWorkflowTooManyErrors\<close> only if, a leading
  Started entry aside, the history of the workflow has at least N entries and the N most
  recent are all Error; when the most recent entry is Started it refuses exactly then.
  \<open>n_latest_all_error\<close> asks N entries to exist and the N first to be Error, so one Success
  among them admits the run.

  A run that is not simulated checks the original workflow: the workflow the executing
  one was published from, or the executing one itself. Let the run start strictly later
  than every entry the original has so far, and let the database list entries latest
  first, in whatever order where starts are equal. Then the entry the run opens is the
  most recent one at the check, and the others are the earlier entries, latest first. When
  the N most recent of these are all Error, nothing escapes the call, the entry is
  closed as Disabled and the executing workflow and its original, and no other workflow,
  are set to Disabled. Otherwise the entry does not become Disabled and no state changes.
\<close>

theorem circuit_breaker:
  "(check_too_many_errors cfg db w = Inl e \<longrightarrow>
       e = AutomationWorkflowTooManyErrors
     \<and> n_latest_all_error (AUTOMATION_WORKFLOW_MAX_CONSECUTIVE_ERRORS cfg)
          (without_leading_started (latest_statuses db w)))
 \<and> (latest_statuses db w \<noteq> [] \<and> hd (latest_statuses db w) = STARTED \<longrightarrow>
      (check_too_many_errors cfg db w = Inl AutomationWorkflowTooManyErrors
         \<longleftrightarrow> n_latest_all_error (AUTOMATION_WORKFLOW_MAX_CONSECUTIVE_ERRORS cfg)
               (without_leading_started (latest_statuses db w))))
 \<and> (get_original_workflow db x = Some orig
      \<and> (\<forall>rows. latest_first rows (order_by_started_on_desc db rows))
      \<and> (\<forall>h\<in>set (histories db). h_workflow_id h = wf_id orig \<longrightarrow> started_on h < t0) \<longrightarrow>
      wf_id orig = (case published_from_id x of
                      Some i \<Rightarrow> if i \<noteq> 0 then i else wf_id x | None \<Rightarrow> wf_id x)
    \<and> (\<exists>older. latest_first (filter (\<lambda>r. h_workflow_id r = wf_id orig) (histories db)) older
          \<and> latest_statuses (fst (create_workflow_history db orig t0 (wf_id orig = wf_id x))) orig
              = STARTED # map status older)
    \<and> (\<exists>db' r. start_workflow cfg fuel svc s db x None t0 t1 t2 = (db', r)
          \<and> (n_latest_all_error (AUTOMATION_WORKFLOW_MAX_CONSECUTIVE_ERRORS cfg)
                (without_leading_started
                   (latest_statuses
                      (fst (create_workflow_history db orig t0 (wf_id orig = wf_id x))) orig)) \<longrightarrow>
                r = None \<and> status (last (histories db')) = DISABLED
              \<and> states db' = map (\<lambda>(i, st). (i, if i = wf_id x \<or> i = wf_id orig
                                                   then Disabled else st)) (states db))
          \<and> (\<not> n_latest_all_error (AUTOMATION_WORKFLOW_MAX_CONSECUTIVE_ERRORS cfg)
                (without_leading_started
                   (latest_statuses
                      (fst (create_workflow_history db orig t0 (wf_id orig = wf_id x))) orig)) \<longrightarrow>
                status (last (histories db')) \<noteq> DISABLED \<and> states db' = states db)))"
proof (intro conjI impI)
  assume "check_too_many_errors cfg db w = Inl e"
  from breaker_only_if[OF this]
  show "e = AutomationWorkflowTooManyErrors"
    and "n_latest_all_error (AUTOMATION_WORKFLOW_MAX_CONSECUTIVE_ERRORS cfg)
          (without_leading_started (latest_statuses db w))"
    by simp_all
next
  assume a: "latest_statuses db w \<noteq> [] \<and> hd (latest_statuses db w) = STARTED"
  then obtain older where o: "latest_statuses db w = STARTED # older"
    by (cases "latest_statuses db w") auto
  have "without_leading_started (latest_statuses db w) = older"
    by (simp add: o without_leading_started_def)
  then show "check_too_many_errors cfg db w = Inl AutomationWorkflowTooManyErrors
         \<longleftrightarrow> n_latest_all_error (AUTOMATION_WORKFLOW_MAX_CONSECUTIVE_ERRORS cfg)
               (without_leading_started (latest_statuses db w))"
    using breaker_iff_started[OF o, of cfg] by simp
next
  assume a: "get_original_workflow db x = Some orig
      \<and> (\<forall>rows. latest_first rows (order_by_started_on_desc db rows))
      \<and> (\<forall>h\<in>set (histories db). h_workflow_id h = wf_id orig \<longrightarrow> started_on h < t0)"
  then show "wf_id orig = (case published_from_id x of
                      Some i \<Rightarrow> if i \<noteq> 0 then i else wf_id x | None \<Rightarrow> wf_id x)"
    using get_original_workflow_id[of db x orig] by simp
  from a have b: "get_original_workflow db x = Some orig"
    "\<forall>rows. latest_first rows (order_by_started_on_desc db rows)"
    "\<forall>h\<in>set (histories db). h_workflow_id h = wf_id orig \<longrightarrow> started_on h < t0"
    by simp_all
  from start_workflow_breaker[OF b, of cfg fuel svc s t1 t2]
  show "\<exists>older. latest_first (filter (\<lambda>r. h_workflow_id r = wf_id orig) (histories db)) older
          \<and> latest_statuses (fst (create_workflow_history db orig t0 (wf_id orig = wf_id x))) orig
              = STARTED # map status older"
    and "\<exists>db' r. start_workflow cfg fuel svc s db x None t0 t1 t2 = (db', r)
          \<and> (n_latest_all_error (AUTOMATION_WORKFLOW_MAX_CONSECUTIVE_ERRORS cfg)
                (without_leading_started
                   (latest_statuses
                      (fst (create_workflow_history db orig t0 (wf_id orig = wf_id x))) orig)) \<longrightarrow>
                r = None \<and> status (last (histories db')) = DISABLED
              \<and> states db' = map (\<lambda>(i, st). (i, if i = wf_id x \<or> i = wf_id orig
                                                   then Disabled else st)) (states db))
          \<and> (\<not> n_latest_all_error (AUTOMATION_WORKFLOW_MAX_CONSECUTIVE_ERRORS cfg)
                (without_leading_started
                   (latest_statuses
                      (fst (create_workflow_history db orig t0 (wf_id orig = wf_id x))) orig)) \<longrightarrow>
                status (last (histories db')) \<noteq> DISABLED \<and> states db' = states db)"
    by blast+
qed

theorem circuit_breaker_witness:
  "\<exists>db'. start_workflow example_settings 5 example_service [example_node 1 None '''']
           (example_engine [example_workflow 1 None Draft, example_workflow 2 (Some 1) Live]
              [example_history 1 20 ERROR, example_history 1 30 ERROR,
               example_history 1 40 ERROR])
           (example_workflow 2 (Some 1) Live) None 50 50 51 = (db', None)
        \<and> status (last (histories db')) = DISABLED
        \<and> states db' = [(1, Disabled), (2, Disabled)]"
proof -
  have valid: "\<forall>rows. latest_first rows
      (order_by_started_on_desc
         (example_engine [example_workflow 1 None Draft, example_workflow 2 (Some 1) Live]
              [example_history 1 20 ERROR, example_history 1 30 ERROR,
               example_history 1 40 ERROR]) rows)"
    by (simp add: example_engine_def latest_first_rev_sort)
  from circuit_breaker
    [where cfg = example_settings and fuel = 5 and svc = example_service
       and s = "[example_node 1 None '''']"
       and db = "example_engine [example_workflow 1 None Draft, example_workflow 2 (Some 1) Live]
              [example_history 1 20 ERROR, example_history 1 30 ERROR,
               example_history 1 40 ERROR]"
       and x = "example_workflow 2 (Some 1) Live" and orig = "example_workflow 1 None Draft"
       and ?t0.0 = 50 and ?t1.0 = 50 and ?t2.0 = 51] valid
  show ?thesis
    by (simp add: get_original_workflow_def n_latest_all_error_def latest_statuses_def
          history_latest_first_def without_leading_started_def create_workflow_history_def
          states_def Let_def run_example_defs)
qed

section \<open>Closing the history entry\<close>

lemma dispatch_interrupted:
  "dispatch_node fuel svc s nd ctx = Some (c, Some KeyboardInterruptOrSystemExit)
     \<longrightarrow> (\<exists>n rs. svc n rs = Inl OtherBaseException)"
  and "dispatch_next_nodes fuel svc s nds ctx = Some (c, Some KeyboardInterruptOrSystemExit)
     \<longrightarrow> (\<exists>n rs. svc n rs = Inl OtherBaseException)"
proof (induction fuel svc s nd ctx and fuel svc s nds ctx arbitrary: c and c
       rule: dispatch_node_dispatch_next_nodes.induct)
  case (1 svc s nd ctx)
  show ?case by simp
next
  case (2 fuel svc s nd ctx)
  show ?case
  proof (cases "svc nd (results (ctx\<lparr>dispatched := dispatched ctx @ [node_id nd]\<rparr>))")
    case (Inl x)
    then show ?thesis by (cases x) (auto simp: translate_def Let_def)
  next
    case (Inr r)
    then show ?thesis
      using "2.IH"[OF refl Inr refl, of c]
      by (auto simp: Let_def split: if_splits)
  qed
next
  case (3 fuel svc s ctx)
  show ?case by simp
next
  case (4 fuel svc s next_node rest ctx)
  show ?case
  proof (cases "dispatch_node fuel svc s next_node ctx")
    case None
    then show ?thesis by simp
  next
    case (Some res)
    obtain c1 eo where res: "res = (c1, eo)" by (cases res)
    show ?thesis
    proof (cases eo)
      case None
      then show ?thesis
        using Some res "4.IH"(2)[OF Some[unfolded res] refl None, of c]
        by simp
    next
      case (Some e1)
      then show ?thesis
        using \<open>dispatch_node fuel svc s next_node ctx = Some res\<close> res "4.IH"(1)[of c1]
        by auto
    qed
  qed
qed

lemma try_block_interrupted:
  assumes "snd (try_block cfg fuel svc s db w orig ctx now) = Some KeyboardInterruptOrSystemExit"
  shows "\<exists>n rs. svc n rs = Inl OtherBaseException"
proof -
  have "snd (before_run cfg now db orig) \<noteq> Some KeyboardInterruptOrSystemExit"
    by (auto simp: before_run_def Let_def split: sum.splits
             dest: check_too_many_errors_raises check_is_rate_limited_raises)
  with assms obtain trigger c
    where "dispatch_node fuel svc s trigger ctx = Some (c, Some KeyboardInterruptOrSystemExit)"
    by (auto simp: try_block_def split: prod.splits option.splits)
  with dispatch_interrupted(1) show ?thesis by blast
qed

text \<open>
  What the code does close. A simulated run leaves the history table as it was. A run that
  is not simulated, with business logic that raises nothing but an \<open>Exception\<close>, returns
  with exactly one entry added: opened as Started and closed, with \<open>completed_on\<close> set and
  a status of Success, Error or Disabled; Success exactly when nothing was raised, and
  Disabled exactly when the circuit breaker refused the run.
\<close>

lemma simulated_run_not_recorded:
  assumes "get_original_workflow db w = Some orig"
  shows "histories (fst (start_workflow cfg fuel svc s db w (Some n) t0 t1 t2)) = histories db"
  unfolding start_workflow_simulated[OF assms] by (simp add: try_block_fst)

lemma history_entry_closed_on_exception:
  assumes "get_original_workflow db w = Some orig"
    and "\<forall>n rs. svc n rs \<noteq> Inl OtherBaseException"
  shows "status (snd (create_workflow_history db orig t0 (wf_id orig = wf_id w))) = STARTED
       \<and> (\<exists>db' h. start_workflow cfg fuel svc s db w None t0 t1 t2 = (db', None)
             \<and> histories db' = histories db @ [h]
             \<and> h_workflow_id h = wf_id orig \<and> started_on h = t0
             \<and> completed_on h = Some t2
             \<and> (status h = SUCCESS \<or> status h = ERROR \<or> status h = DISABLED)
             \<and> (status h = SUCCESS \<longleftrightarrow> message h = None)
             \<and> (status h = DISABLED \<longleftrightarrow> message h = Some AutomationWorkflowTooManyErrors)
             \<and> (status h = DISABLED \<longleftrightarrow>
                  check_too_many_errors cfg
                    (fst (create_workflow_history db orig t0 (wf_id orig = wf_id w))) orig
                  = Inl AutomationWorkflowTooManyErrors))"
proof -
  define opened where "opened = \<lparr>h_workflow_id = wf_id orig, started_on = t0, completed_on = None,
                   is_test_run = (wf_id orig = wf_id w), status = STARTED, message = None\<rparr>"
  define db1 where "db1 = db\<lparr>histories := histories db @ [opened]\<rparr>"
  define tb where "tb = try_block cfg fuel svc s db1 w orig
                   \<lparr>simulate_until_node = None, results = [], dispatched = [], refreshed = []\<rparr> t1"
  define ho where "ho = handle_outcome (fst tb) w (snd tb)"
  have c: "create_workflow_history db orig t0 (wf_id orig = wf_id w) = (db1, opened)"
    by (simp add: create_workflow_history_def Let_def db1_def opened_def)
  have caught: "snd tb \<noteq> Some KeyboardInterruptOrSystemExit"
    using try_block_interrupted[of cfg fuel svc s db1 w orig _ t1] assms(2)
    unfolding tb_def by blast
  then obtain st where st: "snd ho = Some st"
    and st_eq: "st = (case snd tb of None \<Rightarrow> SUCCESS
      | Some e \<Rightarrow> if e = AutomationWorkflowTooManyErrors then DISABLED else ERROR)"
    unfolding ho_def snd_handle_outcome by (auto split: option.splits)
  define closed where "closed = opened\<lparr>completed_on := Some t2, message := snd tb, status := st\<rparr>"
  define db' where "db' = (fst ho)\<lparr>histories := histories db @ [closed]\<rparr>"
  have run: "start_workflow cfg fuel svc s db w None t0 t1 t2 = (db', None)"
    using start_workflow_recorded[OF assms(1), of cfg fuel svc s t0 t1 t2] st
    by (simp add: db'_def closed_def ho_def tb_def db1_def opened_def)
  have three: "st = SUCCESS \<or> st = ERROR \<or> st = DISABLED"
    unfolding st_eq by (simp split: option.splits)
  have ok: "st = SUCCESS \<longleftrightarrow> snd tb = None"
    unfolding st_eq by (simp split: option.splits)
  have dis: "st = DISABLED \<longleftrightarrow> snd tb = Some AutomationWorkflowTooManyErrors"
    unfolding st_eq by (simp split: option.splits)
  have brk: "snd tb = Some AutomationWorkflowTooManyErrors
             \<longleftrightarrow> check_too_many_errors cfg db1 orig = Inl AutomationWorkflowTooManyErrors"
    unfolding tb_def by (rule try_block_breaker)
  have fields: "h_workflow_id closed = wf_id orig" "started_on closed = t0"
    "completed_on closed = Some t2" "status closed = st" "message closed = snd tb"
    by (simp_all add: closed_def opened_def)
  have h: "histories db' = histories db @ [closed] \<and> h_workflow_id closed = wf_id orig
           \<and> started_on closed = t0 \<and> completed_on closed = Some t2
           \<and> (status closed = SUCCESS \<or> status closed = ERROR \<or> status closed = DISABLED)
           \<and> (status closed = SUCCESS \<longleftrightarrow> message closed = None)
           \<and> (status closed = DISABLED \<longleftrightarrow> message closed = Some AutomationWorkflowTooManyErrors)
           \<and> (status closed = DISABLED \<longleftrightarrow>
                 check_too_many_errors cfg db1 orig = Inl AutomationWorkflowTooManyErrors)"
    unfolding fields using three ok dis brk by (simp add: db'_def)
  have B: "status (snd (create_workflow_history db orig t0 (wf_id orig = wf_id w))) = STARTED"
    by (simp add: c opened_def)
  have C: "\<exists>db' h. start_workflow cfg fuel svc s db w None t0 t1 t2 = (db', None)
             \<and> histories db' = histories db @ [h]
             \<and> h_workflow_id h = wf_id orig \<and> started_on h = t0
             \<and> completed_on h = Some t2
             \<and> (status h = SUCCESS \<or> status h = ERROR \<or> status h = DISABLED)
             \<and> (status h = SUCCESS \<longleftrightarrow> message h = None)
             \<and> (status h = DISABLED \<longleftrightarrow> message h = Some AutomationWorkflowTooManyErrors)
             \<and> (status h = DISABLED \<longleftrightarrow>
                  check_too_many_errors cfg
                    (fst (create_workflow_history db orig t0 (wf_id orig = wf_id w))) orig
                  = Inl AutomationWorkflowTooManyErrors)"
    unfolding c fst_conv using conjI[OF run h] by (intro exI[of _ db'] exI[of _ closed])
  show ?thesis using B C by (rule conjI)
qed

text \<open>
  C8 fails on the code on one termination path. The \<open>try\<close> statement of
  \<open>start_workflow\<close> ends in \<open>except Exception\<close>, and its \<open>finally\<close> block, which is there to
  close the entry on every path, reads \<open>history_message\<close> and \<open>history_status\<close>, which
  only the \<open>except\<close> and \<open>else\<close> clauses assign. When the business logic of a node is interrupted (\<open>KeyboardInterrupt\<close>,
  \<open>SystemExit\<close>) no clause is entered, the \<open>finally\<close> block raises \<open>UnboundLocalError\<close> before
  \<open>history.save()\<close>, and the entry stays as it was opened: Started, with no
  \<open>completed_on\<close>. Here workflow 1 runs (not simulated) at time 50 and its trigger is
  interrupted.
\<close>

theorem history_entry_left_started:
  "map_prod histories id
     (start_workflow example_settings 5 interrupted_service [example_node 1 None '''']
        (example_engine [example_workflow 1 None Draft] [])
        (example_workflow 1 None Draft) None 50 50 51)
     = ([\<lparr>h_workflow_id = 1, started_on = 50, completed_on = None, is_test_run = True,
           status = STARTED, message = None\<rparr>],
        Some UnboundLocalError)"
  by (simp add: start_workflow_def try_block_def handle_outcome_def before_run_def
        reset_workflow_temporary_states_def check_too_many_errors_def history_latest_first_def
        check_is_rate_limited_def check_is_rate_limited_value_def get_trigger_def
        get_original_workflow_def create_workflow_history_def translate_def
        eval_nat_numeral Let_def run_example_defs example_defs)

section \<open>Lemmas on the temporary states and the rate-limit cache in a run\<close>

lemma temporary_states_disable [simp]:
  "temporary_states (disable_workflow db w) = temporary_states db"
  by (simp add: disable_workflow_def temporary_states_def Let_def o_def)

lemma temporary_states_handle_outcome [simp]:
  "temporary_states (fst (handle_outcome db w raised)) = temporary_states db"
  by (simp add: handle_outcome_def split: option.splits)

lemma temporary_states_before_run:
  "temporary_states (fst (before_run cfg now db w))
     = temporary_states (reset_workflow_temporary_states db w)"
  by (simp add: temporary_states_def before_run_workflows)

lemma temporary_states_reset_histories:
  "temporary_states (reset_workflow_temporary_states (db\<lparr>histories := hs\<rparr>) w)
     = temporary_states (reset_workflow_temporary_states db w)"
  by (simp add: temporary_states_def reset_workflow_temporary_states_def)

lemma rate_limit_cache_before_run:
  "rate_limit_cache (fst (before_run cfg now db w))
     = (case check_too_many_errors cfg db w of
          Inl e \<Rightarrow> rate_limit_cache db
        | Inr u \<Rightarrow> (case check_is_rate_limited cfg now (wf_id w) (rate_limit_cache db) of
                      Inl e \<Rightarrow> rate_limit_cache db
                    | Inr cache \<Rightarrow> cache))"
  by (simp add: before_run_def Let_def split: sum.splits)

section \<open>Admission and history are keyed to the original workflow\<close>

text \<open>
  C10. The original workflow of a published workflow is the row of the workflow it was
  published from, and of any other workflow it is the workflow itself. Whenever it
  resolves, \<open>start_workflow\<close> ends, and: the history entry of a run that is not simulated
  belongs to the original workflow, is a test run exactly when the original is the
  executing workflow, and is Disabled exactly when the circuit breaker refuses on the
  history of the original; the rate-limit cache changes under the key of the original
  only, and it is what the circuit breaker and the rate limit of the original make of it;
  the temporary states are those after the reset of the original. So a draft and the
  workflow published from it share one window and one history of errors.
\<close>

theorem keyed_to_original:
  assumes "get_original_workflow db w = Some orig"
  shows "(case published_from_id w of
            Some i \<Rightarrow> if i \<noteq> 0 then wf_id orig = i \<and> orig \<in> set (workflows db) else orig = w
          | None \<Rightarrow> orig = w)
       \<and> (\<exists>db' r. start_workflow cfg fuel svc s db w simulate_until t0 t1 t2 = (db', r)
          \<and> (simulate_until = None \<longrightarrow>
                (\<exists>h. histories db' = histories db @ [h]
                    \<and> h_workflow_id h = wf_id orig
                    \<and> (is_test_run h \<longleftrightarrow> wf_id orig = wf_id w)
                    \<and> (status h = DISABLED \<longleftrightarrow>
                         check_too_many_errors cfg
                           (fst (create_workflow_history db orig t0 (wf_id orig = wf_id w))) orig
                         = Inl AutomationWorkflowTooManyErrors)))
          \<and> (\<forall>k. k \<noteq> wf_id orig \<longrightarrow> rate_limit_cache db' k = rate_limit_cache db k)
          \<and> rate_limit_cache db'
                = (case check_too_many_errors cfg
                          (if simulate_until = None
                           then fst (create_workflow_history db orig t0 (wf_id orig = wf_id w))
                           else db) orig of
                     Inl e \<Rightarrow> rate_limit_cache db
                   | Inr u \<Rightarrow>
                       (case check_is_rate_limited cfg t1 (wf_id orig) (rate_limit_cache db) of
                          Inl e \<Rightarrow> rate_limit_cache db
                        | Inr cache \<Rightarrow> cache))
          \<and> temporary_states db' = temporary_states (reset_workflow_temporary_states db orig))"
proof (rule conjI)
  show "case published_from_id w of
            Some i \<Rightarrow> if i \<noteq> 0 then wf_id orig = i \<and> orig \<in> set (workflows db) else orig = w
          | None \<Rightarrow> orig = w"
    by (rule get_original_workflow_row[OF assms])
next
  show "\<exists>db' r. start_workflow cfg fuel svc s db w simulate_until t0 t1 t2 = (db', r)
          \<and> (simulate_until = None \<longrightarrow>
                (\<exists>h. histories db' = histories db @ [h]
                    \<and> h_workflow_id h = wf_id orig
                    \<and> (is_test_run h \<longleftrightarrow> wf_id orig = wf_id w)
                    \<and> (status h = DISABLED \<longleftrightarrow>
                         check_too_many_errors cfg
                           (fst (create_workflow_history db orig t0 (wf_id orig = wf_id w))) orig
                         = Inl AutomationWorkflowTooManyErrors)))
          \<and> (\<forall>k. k \<noteq> wf_id orig \<longrightarrow> rate_limit_cache db' k = rate_limit_cache db k)
          \<and> rate_limit_cache db'
                = (case check_too_many_errors cfg
                          (if simulate_until = None
                           then fst (create_workflow_history db orig t0 (wf_id orig = wf_id w))
                           else db) orig of
                     Inl e \<Rightarrow> rate_limit_cache db
                   | Inr u \<Rightarrow>
                       (case check_is_rate_limited cfg t1 (wf_id orig) (rate_limit_cache db) of
                          Inl e \<Rightarrow> rate_limit_cache db
                        | Inr cache \<Rightarrow> cache))
          \<and> temporary_states db' = temporary_states (reset_workflow_temporary_states db orig)"
  proof (cases simulate_until)
    case (Some n)
    define tb where "tb = try_block cfg fuel svc s db w orig
                         \<lparr>simulate_until_node = Some n, results = [], dispatched = [],
                          refreshed = []\<rparr> t1"
    define db' where "db' = fst (handle_outcome (fst tb) w (snd tb))"
    define r where "r = (case snd (handle_outcome (fst tb) w (snd tb)) of
                           Some st \<Rightarrow> None | None \<Rightarrow> snd tb)"
    have run: "start_workflow cfg fuel svc s db w simulate_until t0 t1 t2 = (db', r)"
      unfolding Some db'_def r_def tb_def by (rule start_workflow_simulated[OF assms])
    have cache: "rate_limit_cache db' = rate_limit_cache (fst (before_run cfg t1 db orig))"
      by (simp add: db'_def tb_def try_block_fst)
    have other: "\<forall>k. k \<noteq> wf_id orig \<longrightarrow> rate_limit_cache db' k = rate_limit_cache db k"
      unfolding cache by (simp add: before_run_other_keys)
    have ts: "temporary_states db' = temporary_states (reset_workflow_temporary_states db orig)"
      by (simp add: db'_def tb_def try_block_fst temporary_states_before_run)
    show ?thesis
      using run other ts cache Some
      by (intro exI[of _ db'] exI[of _ r]) (simp add: rate_limit_cache_before_run)
  next
    case None
    define opened where "opened = \<lparr>h_workflow_id = wf_id orig, started_on = t0, completed_on = None,
                     is_test_run = (wf_id orig = wf_id w), status = STARTED, message = None\<rparr>"
    define db1 where "db1 = db\<lparr>histories := histories db @ [opened]\<rparr>"
    define tb where "tb = try_block cfg fuel svc s db1 w orig
                     \<lparr>simulate_until_node = None, results = [], dispatched = [], refreshed = []\<rparr> t1"
    define ho where "ho = handle_outcome (fst tb) w (snd tb)"
    define h where "h = (case snd ho of
                           Some st \<Rightarrow> opened\<lparr>completed_on := Some t2, message := snd tb,
                                              status := st\<rparr>
                         | None \<Rightarrow> opened)"
    define r where "r = (case snd ho of Some st \<Rightarrow> None | None \<Rightarrow> Some UnboundLocalError)"
    define db' where "db' = (fst ho)\<lparr>histories := histories db @ [h]\<rparr>"
    have run: "start_workflow cfg fuel svc s db w simulate_until t0 t1 t2 = (db', r)"
      unfolding None start_workflow_recorded[OF assms]
      by (simp add: db'_def r_def h_def ho_def tb_def db1_def opened_def split: option.splits)
    have c: "create_workflow_history db orig t0 (wf_id orig = wf_id w) = (db1, opened)"
      by (simp add: create_workflow_history_def Let_def db1_def opened_def)
    have dis: "status h = DISABLED \<longleftrightarrow> snd tb = Some AutomationWorkflowTooManyErrors"
      unfolding h_def ho_def snd_handle_outcome
      by (simp add: opened_def split: option.splits)
    have brk: "snd tb = Some AutomationWorkflowTooManyErrors
               \<longleftrightarrow> check_too_many_errors cfg db1 orig = Inl AutomationWorkflowTooManyErrors"
      unfolding tb_def by (rule try_block_breaker)
    have hh: "histories db' = histories db @ [h] \<and> h_workflow_id h = wf_id orig
             \<and> (is_test_run h \<longleftrightarrow> wf_id orig = wf_id w)
             \<and> (status h = DISABLED \<longleftrightarrow>
                   check_too_many_errors cfg db1 orig = Inl AutomationWorkflowTooManyErrors)"
      using dis brk by (simp add: db'_def h_def opened_def split: option.splits)
    have H: "simulate_until = None \<longrightarrow>
                  (\<exists>h. histories db' = histories db @ [h]
                      \<and> h_workflow_id h = wf_id orig
                      \<and> (is_test_run h \<longleftrightarrow> wf_id orig = wf_id w)
                      \<and> (status h = DISABLED \<longleftrightarrow>
                           check_too_many_errors cfg
                             (fst (create_workflow_history db orig t0 (wf_id orig = wf_id w))) orig
                           = Inl AutomationWorkflowTooManyErrors))"
      unfolding c fst_conv using hh by (intro impI exI[of _ h])
    have cache: "rate_limit_cache db' = rate_limit_cache (fst (before_run cfg t1 db1 orig))"
      by (simp add: db'_def ho_def tb_def try_block_fst)
    have "rate_limit_cache db1 = rate_limit_cache db" by (simp add: db1_def)
    then have other: "\<forall>k. k \<noteq> wf_id orig \<longrightarrow> rate_limit_cache db' k = rate_limit_cache db k"
      unfolding cache by (simp add: before_run_other_keys)
    have "temporary_states db' = temporary_states (fst ho)"
      by (simp add: db'_def temporary_states_def)
    also have "\<dots> = temporary_states (reset_workflow_temporary_states db1 orig)"
      by (simp add: ho_def tb_def try_block_fst temporary_states_before_run)
    also have "\<dots> = temporary_states (reset_workflow_temporary_states db orig)"
      unfolding db1_def by (rule temporary_states_reset_histories)
    finally have ts: "temporary_states db' = temporary_states (reset_workflow_temporary_states db orig)" .
    have S: "rate_limit_cache db'
                  = (case check_too_many_errors cfg
                            (if simulate_until = None
                             then fst (create_workflow_history db orig t0 (wf_id orig = wf_id w))
                             else db) orig of
                       Inl e \<Rightarrow> rate_limit_cache db
                     | Inr u \<Rightarrow>
                         (case check_is_rate_limited cfg t1 (wf_id orig) (rate_limit_cache db) of
                            Inl e \<Rightarrow> rate_limit_cache db
                          | Inr cache \<Rightarrow> cache))"
      unfolding cache rate_limit_cache_before_run c fst_conv None
      using \<open>rate_limit_cache db1 = rate_limit_cache db\<close> by (simp split: sum.splits)
    show ?thesis
      by (rule exI[of _ db'], rule exI[of _ r], intro conjI)
         (rule run, rule H, rule other, rule S, rule ts)
  qed
qed

theorem keyed_to_original_witness:
  "\<exists>db'. start_workflow example_settings 5 example_service [example_node 1 None '''']
           (example_engine [example_workflow 1 None Draft, example_workflow 2 (Some 1) Live] [])
           (example_workflow 2 (Some 1) Live) None 50 50 51 = (db', None)
        \<and> (\<exists>h. histories db' = [h] \<and> h_workflow_id h = 1 \<and> \<not> is_test_run h)
        \<and> rate_limit_cache db' 1 = Some [Datetime 50]
        \<and> rate_limit_cache db' 2 = None"
proof -
  have run: "snd (start_workflow example_settings 5 example_service [example_node 1 None '''']
           (example_engine [example_workflow 1 None Draft, example_workflow 2 (Some 1) Live] [])
           (example_workflow 2 (Some 1) Live) None 50 50 51) = None"
    by (simp add: start_workflow_def try_block_def handle_outcome_def before_run_def
        reset_workflow_temporary_states_def check_too_many_errors_def history_latest_first_def
        check_is_rate_limited_def check_is_rate_limited_value_def get_trigger_def
        get_original_workflow_def create_workflow_history_def
        Let_def run_example_defs example_defs split: prod.splits option.splits)
  from keyed_to_original
    [where cfg = example_settings and fuel = 5 and svc = example_service
       and s = "[example_node 1 None '''']"
       and db = "example_engine [example_workflow 1 None Draft, example_workflow 2 (Some 1) Live] []"
       and w = "example_workflow 2 (Some 1) Live" and orig = "example_workflow 1 None Draft"
       and simulate_until = None and ?t0.0 = 50 and ?t1.0 = 50 and ?t2.0 = 51]
  obtain db' r h where
    "start_workflow example_settings 5 example_service [example_node 1 None '''']
           (example_engine [example_workflow 1 None Draft, example_workflow 2 (Some 1) Live] [])
           (example_workflow 2 (Some 1) Live) None 50 50 51 = (db', r)"
    "histories db' = [h]" "h_workflow_id h = 1" "\<not> is_test_run h"
    "rate_limit_cache db' 1 = Some [Datetime 50]"
    "rate_limit_cache db' 2 = None"
    by (auto simp: get_original_workflow_def check_too_many_errors_def history_latest_first_def
          create_workflow_history_def check_is_rate_limited_def check_is_rate_limited_value_def
          Let_def run_example_defs)
  with run show ?thesis by auto
qed

section \<open>Trigger protection\<close>

lemma service_delete_node_action:
  assumes "handler_get_node s i = Inr nd" and "\<not> is_workflow_trigger (ntype nd)"
    and "usr DeleteAutomationNode"
  shows "service_delete_node usr s i = Inr (filter (\<lambda>r. node_id r \<noteq> node_id nd) s, nd)"
  using assms
  by (simp add: service_delete_node_def check_permissions_def trash_def before_delete_def)

lemma service_create_node_action:
  assumes "\<not> is_workflow_trigger nt" and "usr CreateAutomationNode"
  shows "service_create_node env usr s new_id nt workflow None kw
           = Inr (create_node env s new_id nt workflow None kw)"
  using assms by (simp add: service_create_node_def check_permissions_def)

text \<open>
  C9. \<open>create_node\<close> of the service with a trigger node type fails with
  \<open>AutomationTriggerModificationDisallowed\<close>, whoever the user and whatever the other
  arguments: the check is the first statement, so no row is written. \<open>delete_node\<close> of the
  service on a trigger fails for every user, so the trigger stays; for a user who may
  delete nodes the exception is \<open>AutomationTriggerModificationDisallowed\<close>, for any other
  user the permission check, which comes first, refuses.
\<close>

theorem trigger_protection:
  "(is_workflow_trigger nt \<longrightarrow>
      service_create_node env usr s new_id nt workflow before_node kw
        = Inl AutomationTriggerModificationDisallowed)
 \<and> (handler_get_node s i = Inr t \<and> is_workflow_trigger (ntype t) \<longrightarrow>
      (\<exists>e. service_delete_node usr s i = Inl e)
    \<and> (usr DeleteAutomationNode \<longrightarrow>
          service_delete_node usr s i = Inl AutomationTriggerModificationDisallowed))"
  by (simp add: service_create_node_def service_delete_node_def check_permissions_def
        trash_def before_delete_def)

theorem trigger_protection_witness:
  "service_create_node example_helpers anyone
      [example_node 1 None '''', example_node 2 (Some 1) ''''] 3 trigger_type 1 None
      \<lparr>kw_previous_node_id = None, kw_previous_node_output = None,
       kw_parent_node_id = None, kw_order = None\<rparr>
     = Inl AutomationTriggerModificationDisallowed
 \<and> service_delete_node anyone [example_node 1 None '''', example_node 2 (Some 1) ''''] 1
     = Inl AutomationTriggerModificationDisallowed
 \<and> service_delete_node anyone [example_node 1 None '''', example_node 2 (Some 1) ''''] 2
     = Inr ([example_node 1 None ''''], example_node 2 (Some 1) '''')"
  using trigger_protection
    [where nt = trigger_type and env = example_helpers and usr = anyone
       and s = "[example_node 1 None '''', example_node 2 (Some 1) '''']" and new_id = 3
       and workflow = 1 and before_node = None
       and kw = "\<lparr>kw_previous_node_id = None, kw_previous_node_output = None,
                  kw_parent_node_id = None, kw_order = None\<rparr>"
       and i = 1 and t = "example_node 1 None ''''"]
    service_delete_node_action
    [where s = "[example_node 1 None '''', example_node 2 (Some 1) '''']" and i = 2
       and nd = "example_node 2 (Some 1) ''''" and usr = anyone]
  by (simp add: handler_get_node_def example_defs)

end
